theory Spec2Isabelle
  imports Main
begin

section \<open>react-testgen: a shallow embedding of \<^verbatim>\<open>src/index.ts\<close>\<close>

text \<open>
  The tool walks a directory tree, picks the component files (\<^verbatim>\<open>*.tsx\<close>), guesses the
  export of each one with four regular expressions, and writes a test stem beside it.

  Conventions of the embedding.
  \<^item> A JavaScript string is a \<^typ>\<open>string\<close>; one \<^typ>\<open>char\<close> stands for one code unit
    below 256 (U+0000 to U+00FF). Texts and file names with other code units are not
    represented.
  \<^item> The tool runs on POSIX paths. \<^verbatim>\<open>main\<close> resolves the root directory to an absolute,
    normalised path and every later path is built from it with \<^verbatim>\<open>path.join\<close>, so a path
    is modelled by the list of its components below \<^verbatim>\<open>/\<close>
    (\<^verbatim>\<open>/proj/src/Button.tsx\<close> is \<open>[''proj'', ''src'', ''Button.tsx'']\<close>).
  \<^item> The file system is a tree of plain files and directories without symbolic links;
    what a system call can refuse (listing a directory, reading or writing a file, creating
    an entry) is a flag of the node, the directories that may not be searched are listed
    beside the tree, and a refused call is a value of type \<open>fs_error\<close>.
\<close>

subsection \<open>Strings\<close>

definition startsWith :: "string \<Rightarrow> string \<Rightarrow> bool" where
  "startsWith s p = (take (length p) s = p)"

definition endsWith :: "string \<Rightarrow> string \<Rightarrow> bool" where
  "endsWith s p = (length p \<le> length s \<and> drop (length s - length p) s = p)"

definition is_lower :: "char \<Rightarrow> bool" where
  "is_lower c = (let n = (of_char c :: nat) in 97 \<le> n \<and> n \<le> 122)"

definition is_upper :: "char \<Rightarrow> bool" where
  "is_upper c = (let n = (of_char c :: nat) in 65 \<le> n \<and> n \<le> 90)"

definition is_digit :: "char \<Rightarrow> bool" where
  "is_digit c = (let n = (of_char c :: nat) in 48 \<le> n \<and> n \<le> 57)"

text \<open>The class \<^verbatim>\<open>[A-Za-z0-9_]\<close>.\<close>

definition is_word :: "char \<Rightarrow> bool" where
  "is_word c = (is_upper c \<or> is_lower c \<or> is_digit c \<or> c = CHR ''_'')"

text \<open>
  The class \<^verbatim>\<open>\s\<close> below 256: tab, line feed, vertical tab, form feed, carriage return,
  space and the no-break space U+00A0.
\<close>

definition is_space :: "char \<Rightarrow> bool" where
  "is_space c = (let n = (of_char c :: nat) in (9 \<le> n \<and> n \<le> 13) \<or> n = 32 \<or> n = 160)"

text \<open>
  \<^verbatim>\<open>toUpperCase\<close> of one code unit: the letters a to z, and U+00E0 to U+00FE without the
  division sign U+00F7, move down by 32; the sharp s U+00DF becomes \<^verbatim>\<open>SS\<close>; the rest stays.
  The capitals of the micro sign U+00B5 and of U+00FF are U+039C and U+0178, which are not
  code units below 256: \<open>has_capital\<close> excludes the two, and \<open>upper_char\<close> is the source's
  function on the others only.
\<close>

definition has_capital :: "char \<Rightarrow> bool" where
  "has_capital c = ((of_char c :: nat) \<noteq> 181 \<and> (of_char c :: nat) \<noteq> 255)"

definition upper_char :: "char \<Rightarrow> string" where
  "upper_char c =
     (let n = (of_char c :: nat)
      in if (97 \<le> n \<and> n \<le> 122) \<or> (224 \<le> n \<and> n \<le> 246) \<or> (248 \<le> n \<and> n \<le> 254)
         then [char_of (n - 32)]
         else if n = 223 then ''SS''
         else [c])"

definition toUpperCase :: "string \<Rightarrow> string" where
  "toUpperCase s = concat (map upper_char s)"

subsection \<open>The four regular expressions\<close>

text \<open>
  The patterns of \<^verbatim>\<open>inferExportInfo\<close> are sequences of four kinds of atom: a literal, \<^verbatim>\<open>\s+\<close>,
  \<^verbatim>\<open>\s*\<close> and the capturing group \<^verbatim>\<open>([A-Za-z0-9_]+)\<close>. \<open>match_all\<close> lists the captures
  of every way the atoms match a prefix of the input, in the order a backtracking matcher
  tries them: a greedy quantifier takes the longest run first and gives characters back one
  by one. \<open>match_here\<close> is the first of them, and \<open>js_match\<close> is \<^verbatim>\<open>String.prototype.match\<close>
  with a pattern without the \<^verbatim>\<open>g\<close> flag: the match at the leftmost start index, reduced to
  its group 1.
\<close>

datatype atom = Lit string | Spaces1 | Spaces0 | Name

type_synonym regex = "atom list"

definition greedy_lengths :: "(char \<Rightarrow> bool) \<Rightarrow> nat \<Rightarrow> string \<Rightarrow> nat list" where
  "greedy_lengths cls least s = rev [least ..< Suc (length (takeWhile cls s))]"

fun match_all :: "regex \<Rightarrow> string \<Rightarrow> string \<Rightarrow> string list" where
  "match_all [] s cap = [cap]"
| "match_all (Lit l # r) s cap =
     (if startsWith s l then match_all r (drop (length l) s) cap else [])"
| "match_all (Spaces1 # r) s cap =
     concat (map (\<lambda>k. match_all r (drop k s) cap) (greedy_lengths is_space 1 s))"
| "match_all (Spaces0 # r) s cap =
     concat (map (\<lambda>k. match_all r (drop k s) cap) (greedy_lengths is_space 0 s))"
| "match_all (Name # r) s cap =
     concat (map (\<lambda>k. match_all r (drop k s) (take k s)) (greedy_lengths is_word 1 s))"

definition match_here :: "regex \<Rightarrow> string \<Rightarrow> string option" where
  "match_here r s = (case match_all r s [] of [] \<Rightarrow> None | cap # _ \<Rightarrow> Some cap)"

fun js_match :: "regex \<Rightarrow> string \<Rightarrow> string option" where
  "js_match r [] = match_here r []"
| "js_match r (c # s) =
     (case match_here r (c # s) of Some cap \<Rightarrow> Some cap | None \<Rightarrow> js_match r s)"

text \<open>\<^verbatim>\<open>/export\s+default\s+function\s+([A-Za-z0-9_]+)/\<close>\<close>

definition re_default_function :: regex where
  "re_default_function =
     [Lit ''export'', Spaces1, Lit ''default'', Spaces1, Lit ''function'', Spaces1, Name]"

text \<open>\<^verbatim>\<open>/export\s+default\s+([A-Za-z0-9_]+)/\<close>\<close>

definition re_default :: regex where
  "re_default = [Lit ''export'', Spaces1, Lit ''default'', Spaces1, Name]"

text \<open>\<^verbatim>\<open>/export\s+function\s+([A-Za-z0-9_]+)/\<close>\<close>

definition re_function :: regex where
  "re_function = [Lit ''export'', Spaces1, Lit ''function'', Spaces1, Name]"

text \<open>\<^verbatim>\<open>/export\s+const\s+([A-Za-z0-9_]+)\s*=\s*\(/\<close>\<close>

definition re_const :: regex where
  "re_const =
     [Lit ''export'', Spaces1, Lit ''const'', Spaces1, Name, Spaces0, Lit ''='', Spaces0, Lit ''('']"

subsection \<open>Command-line arguments\<close>

record CliOptions =
  rootDir :: string
  dryRun :: bool
  force :: bool

text \<open>
  One turn of the loop of \<^verbatim>\<open>parseArgs\<close> over \<^verbatim>\<open>process.argv.slice(2)\<close>, and the loop from
  the initial values \<^verbatim>\<open>rootDir = 'src'\<close>, \<^verbatim>\<open>dryRun = false\<close>, \<^verbatim>\<open>force = false\<close>.
\<close>

definition parseArg :: "CliOptions \<Rightarrow> string \<Rightarrow> CliOptions" where
  "parseArg opts arg =
     (if arg = ''--dry-run'' then opts\<lparr>dryRun := True\<rparr>
      else if arg = ''--force'' then opts\<lparr>force := True\<rparr>
      else if \<not> startsWith arg ''-'' then opts\<lparr>rootDir := arg\<rparr>
      else opts)"

definition parseArgs :: "string list \<Rightarrow> CliOptions" where
  "parseArgs args = foldl parseArg \<lparr>rootDir = ''src'', dryRun = False, force = False\<rparr> args"

subsection \<open>Paths\<close>

text \<open>
  The functions of Node's \<^verbatim>\<open>path\<close> module that the tool calls, on absolute normalised POSIX
  paths. \<open>[]\<close> is the root directory \<^verbatim>\<open>/\<close>.
\<close>

type_synonym path = "string list"

definition path_string :: "path \<Rightarrow> string" where
  "path_string p = (if p = [] then ''/'' else concat (map (\<lambda>c. CHR ''/'' # c) p))"

fun join_slash :: "string list \<Rightarrow> string" where
  "join_slash [] = []"
| "join_slash [c] = c"
| "join_slash (c # cs) = c @ ''/'' @ join_slash cs"

text \<open>
  \<^verbatim>\<open>path.extname\<close> of one path component: from the last dot to the end; empty when there is
  no dot, when the only dot is the first character, and for \<^verbatim>\<open>..\<close>.
\<close>

definition last_dot :: "string \<Rightarrow> nat" where
  "last_dot name = length name - Suc (length (takeWhile (\<lambda>c. c \<noteq> CHR ''.'') (rev name)))"

definition extname :: "string \<Rightarrow> string" where
  "extname name =
     (if CHR ''.'' \<notin> set name \<or> name = ''..'' \<or> last_dot name = 0 then []
      else drop (last_dot name) name)"

definition path_extname :: "path \<Rightarrow> string" where
  "path_extname p = (if p = [] then [] else extname (last p))"

text \<open>\<^verbatim>\<open>path.basename(p, ext)\<close>: the last component, without \<open>ext\<close> when it ends with it and is not \<open>ext\<close> itself.\<close>

definition path_basename :: "path \<Rightarrow> string \<Rightarrow> string" where
  "path_basename p ext =
     (if p = [] then []
      else let name = last p in
        if ext \<noteq> [] \<and> endsWith name ext \<and> name \<noteq> ext
        then take (length name - length ext) name else name)"

definition path_dirname :: "path \<Rightarrow> path" where
  "path_dirname p = butlast p"

text \<open>\<^verbatim>\<open>path.join(dir, name)\<close> for a name that is one path component.\<close>

definition path_join :: "path \<Rightarrow> string \<Rightarrow> path" where
  "path_join dir name = dir @ [name]"

text \<open>
  \<^verbatim>\<open>path.relative(from, to)\<close>: drop the common leading components, climb with \<^verbatim>\<open>..\<close> out of
  what is left of \<open>from\<close>, then go down what is left of \<open>to\<close>. The result is a string, empty
  when the two paths are equal, and it never starts with \<^verbatim>\<open>./\<close>.
\<close>

fun path_relative :: "path \<Rightarrow> path \<Rightarrow> string" where
  "path_relative (a # from) (b # to) =
     (if a = b then path_relative from to
      else join_slash (replicate (Suc (length from)) ''..'' @ (b # to)))"
| "path_relative from to = join_slash (replicate (length from) ''..'' @ to)"

text \<open>
  \<^verbatim>\<open>path.resolve(cwd, p)\<close>: the segments of \<open>p\<close> between slashes, applied to \<open>cwd\<close>, or to the
  root when \<open>p\<close> starts with a slash; an empty segment and \<^verbatim>\<open>.\<close> stay, \<^verbatim>\<open>..\<close> goes up.
\<close>

fun split_slash :: "string \<Rightarrow> string list" where
  "split_slash [] = [[]]"
| "split_slash (c # s) =
     (if c = CHR ''/'' then [] # split_slash s
      else (case split_slash s of seg # segs \<Rightarrow> (c # seg) # segs | [] \<Rightarrow> [[c]]))"

definition resolve_segment :: "path \<Rightarrow> string \<Rightarrow> path" where
  "resolve_segment p seg =
     (if seg = [] \<or> seg = ''.'' then p else if seg = ''..'' then butlast p else p @ [seg])"

definition path_resolve :: "path \<Rightarrow> string \<Rightarrow> path" where
  "path_resolve cwd p =
     foldl resolve_segment (if startsWith p ''/'' then [] else cwd) (split_slash p)"

subsection \<open>Test path and export inference\<close>

definition getTestPath :: "path \<Rightarrow> path" where
  "getTestPath filePath =
     (let dir = path_dirname filePath;
          base = path_basename filePath (path_extname filePath)
      in path_join dir (base @ ''.test.tsx''))"

record ComponentExportInfo =
  importName :: string
  importLine :: string
  jsxTag :: string

text \<open>\<^verbatim>\<open>.replace(/\\/g, '/')\<close> and \<^verbatim>\<open>.replace(/\.tsx?$/, '')\<close>.\<close>

definition backslashes_to_slashes :: "string \<Rightarrow> string" where
  "backslashes_to_slashes s = map (\<lambda>c. if c = CHR 0x5C then CHR ''/'' else c) s"

definition strip_ts_extension :: "string \<Rightarrow> string" where
  "strip_ts_extension s =
     (if endsWith s ''.tsx'' then take (length s - 4) s
      else if endsWith s ''.ts'' then take (length s - 3) s
      else s)"

definition relativeImport :: "path \<Rightarrow> string" where
  "relativeImport filePath =
     strip_ts_extension (backslashes_to_slashes
       (path_relative (path_dirname (getTestPath filePath)) filePath))"

definition default_import :: "string \<Rightarrow> string \<Rightarrow> ComponentExportInfo" where
  \<open>default_import name rel =
     \<lparr>importName = name,
      importLine = ''import '' @ name @ '' from "'' @ rel @ ''";'',
      jsxTag = ''<'' @ name @ '' />''\<rparr>\<close>

definition named_import :: "string \<Rightarrow> string \<Rightarrow> ComponentExportInfo" where
  \<open>named_import name rel =
     \<lparr>importName = name,
      importLine = ''import { '' @ name @ '' } from "'' @ rel @ ''";'',
      jsxTag = ''<'' @ name @ '' />''\<rparr>\<close>

text \<open>
  \<^verbatim>\<open>baseName.charAt(0).toUpperCase() + baseName.slice(1) || 'ComponentUnderTest'\<close>: the sum
  binds tighter than \<^verbatim>\<open>||\<close>, and only the empty string is falsy.
\<close>

definition fallbackName :: "string \<Rightarrow> string" where
  "fallbackName baseName =
     (let s = toUpperCase (take 1 baseName) @ drop 1 baseName
      in if s = [] then ''ComponentUnderTest'' else s)"

text \<open>
  \<^verbatim>\<open>inferExportInfo\<close>, lines 96 to 156. \<open>source\<close> is the text that \<^verbatim>\<open>fs.readFile\<close> returned at
  line 95; the read itself, which can fail, is \<open>fs_readFile\<close> below, called by the loop of
  \<open>main\<close> just before.
\<close>

definition inferExportInfo :: "path \<Rightarrow> string \<Rightarrow> ComponentExportInfo" where
  "inferExportInfo filePath source =
     (let baseName = path_basename filePath (path_extname filePath);
          rel = relativeImport filePath
      in case js_match re_default_function source of Some name \<Rightarrow> default_import name rel
         | None \<Rightarrow>
       (case js_match re_default source of Some name \<Rightarrow> default_import name rel
         | None \<Rightarrow>
       (case js_match re_function source of Some name \<Rightarrow> named_import name rel
         | None \<Rightarrow>
       (case js_match re_const source of Some name \<Rightarrow> named_import name rel
         | None \<Rightarrow> default_import (fallbackName baseName) rel))))"

subsection \<open>The test template\<close>

definition createTestTemplate :: "path \<Rightarrow> ComponentExportInfo \<Rightarrow> string" where
  \<open>createTestTemplate filePath exportInfo =
     (let componentLabel = path_basename filePath (path_extname filePath)
      in concat (map (\<lambda>line. line @ [CHR 0x0A])
        [''import { render, screen } from "@testing-library/react";'',
         ''import "@testing-library/jest-dom";'',
         importLine exportInfo,
         [],
         ''describe("'' @ componentLabel @ ''", () => {'',
         ''  it("renders without crashing", () => {'',
         ''    render('' @ jsxTag exportInfo @ '');'',
         ''    // TODO: replace this with meaningful assertions'',
         ''    // Example:'',
         ''    // expect(screen.getByText(/some text/i)).toBeInTheDocument();'',
         ''  });'',
         ''});'']))\<close>

subsection \<open>The file system\<close>

text \<open>
  A plain file carries its text and whether this process may read it and write it; a
  directory carries its entries in listing order, whether \<^verbatim>\<open>fs.readdir\<close> of it succeeds and
  whether this process may create entries in it. Symbolic links and special files are left
  out: a path leads to at most one node, and a node is there or it is not.
\<close>

datatype node =
    File bool bool string
  | Dir bool bool "(string \<times> node) list"

datatype fs_error = ENOENT | ENOTDIR | EISDIR | EACCES

fun isDirectory :: "node \<Rightarrow> bool" where
  "isDirectory (Dir l c es) = True"
| "isDirectory (File r w s) = False"

fun lookup :: "node \<Rightarrow> path \<Rightarrow> node option" where
  "lookup n [] = Some n"
| "lookup (File r w s) (name # p) = None"
| "lookup (Dir l c es) (name # p) =
     (case map_of es name of None \<Rightarrow> None | Some child \<Rightarrow> lookup child p)"

text \<open>
  Reading and writing in the tree, once the path may be followed (\<open>fs_readFile\<close> and
  \<open>fs_writeFile\<close> below check that first).
\<close>

definition readFile :: "node \<Rightarrow> path \<Rightarrow> fs_error + string" where
  "readFile root p =
     (case lookup root p of
        None \<Rightarrow> Inl ENOENT
      | Some (Dir l c es) \<Rightarrow> Inl EISDIR
      | Some (File r w s) \<Rightarrow> if r then Inr s else Inl EACCES)"

fun set_entry :: "string \<Rightarrow> node \<Rightarrow> (string \<times> node) list \<Rightarrow> (string \<times> node) list" where
  "set_entry name n [] = [(name, n)]"
| "set_entry name n ((k, old) # es) =
     (if k = name then (name, n) # es else (k, old) # set_entry name n es)"

text \<open>
  Writing truncates an existing file, or creates the file in its (existing) directory, as
  the last entry.
\<close>

fun writeFile :: "node \<Rightarrow> path \<Rightarrow> string \<Rightarrow> fs_error + node" where
  "writeFile (File r w old) [] data = (if w then Inr (File r w data) else Inl EACCES)"
| "writeFile (Dir l c es) [] data = Inl EISDIR"
| "writeFile (File r w old) (name # p) data = Inl ENOTDIR"
| "writeFile (Dir l c es) (name # p) data =
     (case map_of es name of
        None \<Rightarrow>
          if p \<noteq> [] then Inl ENOENT
          else if c then Inr (Dir l c (set_entry name (File True True data) es))
          else Inl EACCES
      | Some child \<Rightarrow>
          (case writeFile child p data of
             Inl e \<Rightarrow> Inl e
           | Inr child' \<Rightarrow> Inr (Dir l c (set_entry name child' es))))"

subsection \<open>File discovery\<close>

definition COMPONENT_EXTENSIONS :: "string list" where
  "COMPONENT_EXTENSIONS = [''.tsx'']"

definition excluded_dirs :: "string list" where
  "excluded_dirs = [''node_modules'', ''dist'', ''build'', ''.git'']"

text \<open>
  \<open>walk dir n results\<close> is the inner function \<^verbatim>\<open>walk(dir)\<close> where \<open>n\<close> is the node that the
  path \<open>dir\<close> leads to and \<open>results\<close> is the array of the enclosing function; it returns the
  array after the call. \<^verbatim>\<open>fs.readdir\<close> throws on a plain file and on a directory that may
  not be listed, and the \<^verbatim>\<open>catch\<close> returns. \<open>walk_entries\<close> is the \<^verbatim>\<open>for\<close> loop over the
  entries.
\<close>

fun walk :: "path \<Rightarrow> node \<Rightarrow> path list \<Rightarrow> path list"
  and walk_entries :: "path \<Rightarrow> (string \<times> node) list \<Rightarrow> path list \<Rightarrow> path list" where
  "walk dir (File r w s) results = results"
| "walk dir (Dir l c es) results = (if l then walk_entries dir es results else results)"
| "walk_entries dir [] results = results"
| "walk_entries dir ((name, child) # rest) results =
     (if isDirectory child then
        (if name \<in> set excluded_dirs then walk_entries dir rest results
         else walk_entries dir rest (walk (path_join dir name) child results))
      else if endsWith name ''.test.tsx'' \<or> endsWith name ''.stories.tsx'' \<or> startsWith name ''.''
        then walk_entries dir rest results
      else if extname name \<in> set COMPONENT_EXTENSIONS
        then walk_entries dir rest (results @ [path_join dir name])
      else walk_entries dir rest results)"

text \<open>A root directory that does not exist makes the first \<^verbatim>\<open>fs.readdir\<close> throw.\<close>

definition findComponentFiles :: "node \<Rightarrow> path \<Rightarrow> path list" where
  "findComponentFiles root dir =
     (case lookup root dir of None \<Rightarrow> [] | Some n \<Rightarrow> walk dir n [])"

subsection \<open>Main\<close>

text \<open>
  The state of a run: the tree, the directories that this process may not search (no
  execute permission), and the lines printed by \<^verbatim>\<open>console.log\<close>. A run ends normally, or with
  the error that reached \<^verbatim>\<open>main().catch\<close> and exit status 1.
\<close>

record world =
  fs :: node
  unsearchable :: "path list"
  out :: "string list"

text \<open>
  A path can be followed when none of the directories above its last component is
  unsearchable. Listing such a directory is still possible (its entries have their types in
  the listing), so the walk finds the files in it; a directory below it cannot be listed,
  which is its own first flag. \<^verbatim>\<open>fs.access\<close>, \<^verbatim>\<open>fs.readFile\<close> and \<^verbatim>\<open>fs.writeFile\<close> fail with
  \<^verbatim>\<open>EACCES\<close> on a path that cannot be followed, whatever is there. \<^verbatim>\<open>fs.access(p)\<close> without a
  mode resolves when the path can be followed and leads to a node; \<open>main\<close> takes every
  rejection as "no test file".
\<close>

definition reachable :: "world \<Rightarrow> path \<Rightarrow> bool" where
  "reachable w p =
     (\<forall>d \<in> set (unsearchable w). \<not> (length d < length p \<and> take (length d) p = d))"

definition fs_access :: "world \<Rightarrow> path \<Rightarrow> bool" where
  "fs_access w p = (reachable w p \<and> lookup (fs w) p \<noteq> None)"

definition fs_readFile :: "world \<Rightarrow> path \<Rightarrow> fs_error + string" where
  "fs_readFile w p = (if reachable w p then readFile (fs w) p else Inl EACCES)"

definition fs_writeFile :: "world \<Rightarrow> path \<Rightarrow> string \<Rightarrow> fs_error + node" where
  "fs_writeFile w p data = (if reachable w p then writeFile (fs w) p data else Inl EACCES)"

datatype outcome = Completed | Failed fs_error

definition console_log :: "world \<Rightarrow> string \<Rightarrow> world" where
  "console_log w line = w\<lparr>out := out w @ [line]\<rparr>"

text \<open>The loop \<^verbatim>\<open>for (const file of files)\<close> of \<^verbatim>\<open>main\<close>; an error leaves the loop.\<close>

fun generate :: "CliOptions \<Rightarrow> path \<Rightarrow> path list \<Rightarrow> world \<Rightarrow> world \<times> fs_error option" where
  "generate opts cwd [] w = (w, None)"
| "generate opts cwd (file # rest) w =
     (let testPath = getTestPath file;
          testExists = fs_access w testPath
      in if testExists \<and> \<not> force opts then generate opts cwd rest w
         else
           (case fs_readFile w file of
              Inl e \<Rightarrow> (w, Some e)
            | Inr source \<Rightarrow>
               (let exportInfo = inferExportInfo file source;
                    template = createTestTemplate file exportInfo
                in if dryRun opts
                   then generate opts cwd rest
                          (console_log w (''[DRY RUN] Would create: '' @ path_string testPath))
                   else
                     (case fs_writeFile w testPath template of
                        Inl e \<Rightarrow> (w, Some e)
                      | Inr fs' \<Rightarrow>
                          generate opts cwd rest
                            (console_log (w\<lparr>fs := fs'\<rparr>)
                               ((if testExists then ''Overwrote'' else ''Created'') @ '': '' @
                                 path_relative cwd testPath))))))"

definition main :: "string list \<Rightarrow> path \<Rightarrow> world \<Rightarrow> world \<times> outcome" where
  \<open>main argv cwd w =
     (let opts = parseArgs argv;
          absoluteRoot = path_resolve cwd (rootDir opts);
          w1 = console_log w (''react-testgen: scanning "'' @ path_string absoluteRoot @ ''"'');
          files = findComponentFiles (fs w1) absoluteRoot
      in if files = [] then (console_log w1 ''No component files found.'', Completed)
         else
           (case generate opts cwd files w1 of
              (w2, Some e) \<Rightarrow> (w2, Failed e)
            | (w2, None) \<Rightarrow> (console_log w2 ''react-testgen: done.'', Completed)))\<close>

subsection \<open>What the walk can reach\<close>

text \<open>
  The test that the branch for plain files makes on an entry name (lines 66 to 77).
\<close>

definition excluded_name :: "string \<Rightarrow> bool" where
  "excluded_name name =
     (endsWith name ''.test.tsx'' \<or> endsWith name ''.stories.tsx'' \<or> startsWith name ''.'')"

text \<open>
  \<open>visited n rel\<close>: below the directory \<open>n\<close>, the relative path \<open>rel\<close> leads to an entry that
  is not a directory, through directories that can be listed and whose names are not among
  the excluded ones. These are the entries that reach the branch for plain files when the
  walk starts at \<open>n\<close>.
\<close>

fun visited :: "node \<Rightarrow> path \<Rightarrow> bool" where
  "visited (Dir l c es) (name # rel) =
     (l \<and> (\<exists>(k, child) \<in> set es. k = name \<and>
        (if rel = [] then \<not> isDirectory child
         else isDirectory child \<and> name \<notin> set excluded_dirs \<and> visited child rel)))"
| "visited (Dir l c es) [] = False"
| "visited (File r w s) rel = False"

definition component_name :: "string \<Rightarrow> bool" where
  "component_name name = (\<not> excluded_name name \<and> extname name \<in> set COMPONENT_EXTENSIONS)"

text \<open>The plain file at a path, if there is one: its two flags and its text.\<close>

definition file_at :: "node \<Rightarrow> path \<Rightarrow> (bool \<times> bool \<times> string) option" where
  "file_at root p = (case lookup root p of Some (File r w s) \<Rightarrow> Some (r, w, s) | _ \<Rightarrow> None)"

text \<open>The text of the plain file at a path, if there is one.\<close>

definition contents :: "node \<Rightarrow> path \<Rightarrow> string option" where
  "contents root p = (case lookup root p of Some (File r w s) \<Rightarrow> Some s | _ \<Rightarrow> None)"

subsection \<open>A sample project\<close>

text \<open>
  \<^verbatim>\<open>/proj/src\<close> with two components (one already has a test file), a stories file, a hidden
  file, a text file, a dependency directory, a dot directory and a directory that may not
  be listed.
\<close>

definition sample_src :: node where
  "sample_src =
     Dir True True
       [(''Button.tsx'', File True True ''export default function Button() { return null; }''),
        (''Card.tsx'', File True True ''export const Card = () => null;''),
        (''Card.test.tsx'', File True True ''// written by hand''),
        (''Button.stories.tsx'', File True True []),
        (''.hidden.tsx'', File True True []),
        (''notes.txt'', File True True []),
        (''node_modules'', Dir True True [(''pkg.tsx'', File True True [])]),
        (''.cache'', Dir True True [(''Tmp.tsx'', File True True [])]),
        (''locked'', Dir False True [(''Secret.tsx'', File True True [])])]"

definition sample_root :: node where
  "sample_root = Dir True True [(''proj'', Dir True True [(''src'', sample_src)])]"

definition sample_world :: world where
  "sample_world = \<lparr>fs = sample_root, unsearchable = [], out = []\<rparr>"

text \<open>
  A project after \<^verbatim>\<open>chmod a-x /proj/src/locked\<close>: that directory can be listed, nothing in it
  can be reached, and the component beside it can.
\<close>

definition sealed_world :: world where
  "sealed_world =
     \<lparr>fs = Dir True True [(''proj'', Dir True True [(''src'', Dir True True
         [(''locked'', Dir True False
            [(''Card.tsx'', File False False ''export const Card = () => null;''),
             (''Card.test.tsx'', File False False ''// written by hand'')]),
          (''Zed.tsx'', File True True ''export default function Zed() {}'')])])],
      unsearchable = [[''proj'', ''src'', ''locked'']],
      out = []\<rparr>"

text \<open>Two texts that hold both a default function declaration and a constant declaration.\<close>

definition commented_text :: string where
  "commented_text =
     ''/* export default function Old() {} */ export default function Foo() {} export const Bar = () => null;''"

definition longer_name_text :: string where
  "longer_name_text = ''export default function Foo2() {} export const Bar = () => null;''"

section \<open>Properties\<close>

subsection \<open>Command-line arguments\<close>

lemma parseArg_rootDir_flag:
  "startsWith a ''-'' \<Longrightarrow> rootDir (parseArg opts a) = rootDir opts"
  by (auto simp: parseArg_def)

lemma parseArg_rootDir_token:
  "\<not> startsWith a ''-'' \<Longrightarrow> rootDir (parseArg opts a) = a"
  by (auto simp: parseArg_def startsWith_def)

text \<open>
  What the loop computes: every token that does not start with a dash is assigned to
  \<^verbatim>\<open>rootDir\<close> in turn, so the last of them stays.
\<close>

lemma parseArgs_rootDir_last:
  "rootDir (parseArgs args) =
     (let tokens = filter (\<lambda>a. \<not> startsWith a ''-'') args
      in if tokens = [] then ''src'' else last tokens)"
proof (induction args rule: rev_induct)
  case Nil
  show ?case by (simp add: parseArgs_def)
next
  case (snoc a args)
  show ?case
  proof (cases "startsWith a ''-''")
    case True
    with snoc show ?thesis
      by (simp add: parseArgs_def parseArg_rootDir_flag)
  next
    case False
    then show ?thesis
      by (simp add: parseArgs_def parseArg_rootDir_token)
  qed
qed

text \<open>The two flags are set when they occur, wherever they stand.\<close>

lemma parseArg_dryRun:
  "dryRun (parseArg opts a) = (dryRun opts \<or> a = ''--dry-run'')"
  by (simp add: parseArg_def)

lemma parseArg_force:
  "force (parseArg opts a) = (force opts \<or> a = ''--force'')"
  by (simp add: parseArg_def)

lemma parseArgs_flags:
  "dryRun (parseArgs args) = (''--dry-run'' \<in> set args)
   \<and> force (parseArgs args) = (''--force'' \<in> set args)"
  by (induction args rule: rev_induct)
    (auto simp: parseArgs_def parseArg_dryRun parseArg_force)

text \<open>
  Claim C2 (the root directory is the first token that does not start with a dash, also
  when there are two such tokens and wherever the flags stand). The comment at line 35
  says the same, but the assignment at line 36 runs for every such token: with the tokens
  \<^verbatim>\<open>first --dry-run second --force\<close> the root directory is \<^verbatim>\<open>second\<close>.
\<close>

theorem parseArgs_last_token_wins:
  "parseArgs [''first'', ''--dry-run'', ''second'', ''--force''] =
     \<lparr>rootDir = ''second'', dryRun = True, force = True\<rparr>"
  by (simp add: parseArgs_def parseArg_def startsWith_def)

subsection \<open>Paths and the import path\<close>

lemma path_relative_below: "path_relative d (d @ t) = join_slash t"
  by (induction d) simp_all

lemma getTestPath_dirname: "path_dirname (getTestPath filePath) = path_dirname filePath"
  by (simp add: getTestPath_def path_dirname_def path_join_def Let_def)

text \<open>
  The test file is written beside the source file, so the relative path from its directory
  is the name of the source file: no directory part, and no leading \<^verbatim>\<open>./\<close>.
\<close>

lemma relativeImport_sibling:
  assumes "filePath \<noteq> []"
  shows "relativeImport filePath =
           strip_ts_extension (backslashes_to_slashes (last filePath))"
proof -
  have "path_relative (butlast filePath) (butlast filePath @ [last filePath]) =
          join_slash [last filePath]"
    by (rule path_relative_below)
  with assms have "path_relative (path_dirname filePath) filePath = last filePath"
    by (simp add: path_dirname_def)
  then show ?thesis
    by (simp only: relativeImport_def getTestPath_dirname)
qed

text \<open>
  The test path of a component file: the name without \<^verbatim>\<open>.tsx\<close>, with \<^verbatim>\<open>.test.tsx\<close>, in the
  same directory. It is never a component name itself, and two component files never share
  one.
\<close>

lemma endsWith_append: "endsWith (b @ s) s"
  by (simp add: endsWith_def)

lemma getTestPath_eq:
  "getTestPath file =
     butlast file @ [path_basename file (path_extname file) @ ''.test.tsx'']"
  by (simp add: getTestPath_def path_dirname_def path_join_def Let_def)

lemma getTestPath_not_component:
  "getTestPath file \<noteq> [] \<and> \<not> component_name (last (getTestPath file))"
  by (simp add: getTestPath_eq component_name_def excluded_name_def endsWith_append)

lemma extname_split:
  assumes "extname name = e" and "e \<noteq> []"
  shows "\<exists>b. b \<noteq> [] \<and> name = b @ e \<and> path_basename (d @ [name]) e = b"
proof -
  define b where "b = take (last_dot name) name"
  from assms have k: "last_dot name \<noteq> 0" "drop (last_dot name) name = e"
    by (auto simp: extname_def split: if_splits)
  from k(2) assms(2) have lt: "last_dot name < length name"
    by (metis drop_all not_le_imp_less)
  from k(2) have name: "name = b @ e"
    unfolding b_def by (metis append_take_drop_id)
  from lt k(1) have ne: "b \<noteq> []"
    unfolding b_def by auto
  from ne assms(2) have base: "path_basename (d @ [b @ e]) e = b"
    by (simp add: path_basename_def endsWith_def)
  show ?thesis
  proof (intro exI conjI)
    show "b \<noteq> []" by (rule ne)
    show "name = b @ e" by (rule name)
    show "path_basename (d @ [name]) e = b" by (subst name) (rule base)
  qed
qed

lemma getTestPath_component:
  assumes "f \<noteq> []" and "component_name (last f)"
  shows "\<exists>b. last f = b @ ''.tsx'' \<and> getTestPath f = butlast f @ [b @ ''.test.tsx'']"
proof -
  from assms(2) have e: "extname (last f) = ''.tsx''"
    by (simp add: component_name_def COMPONENT_EXTENSIONS_def)
  from extname_split [OF e, of "butlast f"] assms(1) obtain b where
    b: "last f = b @ ''.tsx''" "path_basename f ''.tsx'' = b"
    by auto
  from assms(1) e have "path_extname f = ''.tsx''"
    by (simp add: path_extname_def)
  with b show ?thesis
    by (simp add: getTestPath_eq)
qed

lemma getTestPath_inj:
  assumes "f \<noteq> []" "component_name (last f)" "g \<noteq> []" "component_name (last g)"
    and "getTestPath f = getTestPath g"
  shows "f = g"
proof -
  from getTestPath_component [OF assms(1,2)] obtain b where
    b: "last f = b @ ''.tsx''" "getTestPath f = butlast f @ [b @ ''.test.tsx'']" by blast
  from getTestPath_component [OF assms(3,4)] obtain b' where
    b': "last g = b' @ ''.tsx''" "getTestPath g = butlast g @ [b' @ ''.test.tsx'']" by blast
  from assms(5) b(2) b'(2) have "butlast f = butlast g" "b = b'" by auto
  with b(1) b'(1) have "butlast f @ [last f] = butlast g @ [last g]" by simp
  with assms(1,3) show ?thesis by simp
qed

lemma component_not_test_path:
  assumes "f \<noteq> []" "component_name (last f)"
  shows "f \<noteq> getTestPath g"
  using assms getTestPath_not_component [of g] by auto

text \<open>
  For a component file the import path is the name of the file without \<^verbatim>\<open>.tsx\<close> (a backslash
  in the name apart): it never starts with \<^verbatim>\<open>./\<close>.
\<close>

lemma strip_ts_extension_tsx: "strip_ts_extension (b @ ''.tsx'') = b"
  by (simp add: strip_ts_extension_def endsWith_def)

lemma relativeImport_component:
  assumes "f \<noteq> []" and "component_name (last f)"
  shows "\<exists>b. b \<noteq> [] \<and> last f = b @ ''.tsx'' \<and> relativeImport f = backslashes_to_slashes b"
proof -
  from assms(2) have e: "extname (last f) = ''.tsx''"
    by (simp add: component_name_def COMPONENT_EXTENSIONS_def)
  from extname_split [OF e, of "[]"] obtain b where b: "b \<noteq> []" "last f = b @ ''.tsx''"
    by auto
  have "backslashes_to_slashes (b @ ''.tsx'') = backslashes_to_slashes b @ ''.tsx''"
    by (simp add: backslashes_to_slashes_def)
  with b(2) assms(1) have "relativeImport f = backslashes_to_slashes b"
    by (simp add: relativeImport_sibling strip_ts_extension_tsx)
  with b show ?thesis by blast
qed

lemma relativeImport_no_dot_slash:
  assumes "f \<noteq> []" and "component_name (last f)"
  shows "\<not> startsWith (relativeImport f) ''./''"
proof -
  from relativeImport_component [OF assms] obtain b where
    b: "b \<noteq> []" "last f = b @ ''.tsx''" "relativeImport f = backslashes_to_slashes b"
    by blast
  from assms(2) b(2) have "\<not> startsWith (b @ ''.tsx'') ''.''"
    by (simp add: component_name_def excluded_name_def)
  with b(1) have "hd b \<noteq> CHR ''.''"
    by (cases b) (auto simp: startsWith_def)
  with b(1) have "\<not> startsWith (backslashes_to_slashes b) ''./''"
    by (cases b) (auto simp: startsWith_def backslashes_to_slashes_def)
  with b(3) show ?thesis by simp
qed

subsection \<open>Export inference\<close>

lemma inferExportInfo_rule1:
  "js_match re_default_function source = Some name \<Longrightarrow>
     inferExportInfo filePath source = default_import name (relativeImport filePath)"
  by (simp add: inferExportInfo_def)

lemma inferExportInfo_rule2:
  "js_match re_default_function source = None \<Longrightarrow>
   js_match re_default source = Some name \<Longrightarrow>
     inferExportInfo filePath source = default_import name (relativeImport filePath)"
  by (simp add: inferExportInfo_def)

lemma inferExportInfo_rule3:
  "js_match re_default_function source = None \<Longrightarrow>
   js_match re_default source = None \<Longrightarrow>
   js_match re_function source = Some name \<Longrightarrow>
     inferExportInfo filePath source = named_import name (relativeImport filePath)"
  by (simp add: inferExportInfo_def)

lemma inferExportInfo_rule4:
  "js_match re_default_function source = None \<Longrightarrow>
   js_match re_default source = None \<Longrightarrow>
   js_match re_function source = None \<Longrightarrow>
   js_match re_const source = Some name \<Longrightarrow>
     inferExportInfo filePath source = named_import name (relativeImport filePath)"
  by (simp add: inferExportInfo_def)

lemma inferExportInfo_no_match:
  "js_match re_default_function source = None \<Longrightarrow>
   js_match re_default source = None \<Longrightarrow>
   js_match re_function source = None \<Longrightarrow>
   js_match re_const source = None \<Longrightarrow>
     inferExportInfo filePath source =
       default_import (fallbackName (path_basename filePath (path_extname filePath)))
         (relativeImport filePath)"
  by (simp add: inferExportInfo_def)

lemma fallbackName_empty: "fallbackName [] = ''ComponentUnderTest''"
  by (simp add: fallbackName_def toUpperCase_def)

lemma upper_char_nonempty: "upper_char c \<noteq> []"
  by (simp add: upper_char_def Let_def)

lemma fallbackName_nonempty: "fallbackName (c # s) = upper_char c @ s"
  by (simp add: fallbackName_def toUpperCase_def upper_char_nonempty)

text \<open>
  Claim C1 (a file \<^verbatim>\<open>widget.tsx\<close> without a recognised export gives the import line
  \<^verbatim>\<open>import Widget from "./widget";\<close>, and every import line names the source by a path
  that starts with \<^verbatim>\<open>./\<close>). The name is right, the path is not: \<^verbatim>\<open>path.relative\<close> returns
  \<^verbatim>\<open>widget.tsx\<close>, nothing puts \<^verbatim>\<open>./\<close> before it, and the line imports the bare specifier
  \<^verbatim>\<open>widget\<close>. The same happens to \<^verbatim>\<open>Button.tsx\<close> of the second scenario, and to every
  component file (\<open>relativeImport_no_dot_slash\<close>).
\<close>

theorem import_path_lacks_dot_slash:
  \<open>inferExportInfo [''proj'', ''src'', ''widget.tsx''] ''const x = 1;'' =
     \<lparr>importName = ''Widget'',
      importLine = ''import Widget from "widget";'',
      jsxTag = ''<Widget />''\<rparr>
   \<and> inferExportInfo [''proj'', ''src'', ''Button.tsx'']
       ''export default function Button() { return null; }'' =
     \<lparr>importName = ''Button'',
      importLine = ''import Button from "Button";'',
      jsxTag = ''<Button />''\<rparr>\<close>
  by code_simp

text \<open>
  Claim C3 (a file with none of the four supported export shapes, such as
  \<^verbatim>\<open>export default memo(Foo)\<close> or \<^verbatim>\<open>export default class Foo\<close>, gets the fallback name made
  from the file name). The second pattern is meant for \<^verbatim>\<open>export default ComponentName;\<close>
  (comment at line 115) but nothing in it ends the name, so it takes the first word after
  \<^verbatim>\<open>export default\<close> whatever follows: \<^verbatim>\<open>class\<close> and \<^verbatim>\<open>memo\<close> here, where the fallback
  would have been \<^verbatim>\<open>Foo\<close>.
\<close>

theorem default_class_and_hoc_caught_by_rule2:
  \<open>inferExportInfo [''proj'', ''src'', ''Foo.tsx'']
       ''export default class Foo extends React.Component {}'' =
     \<lparr>importName = ''class'',
      importLine = ''import class from "Foo";'',
      jsxTag = ''<class />''\<rparr>
   \<and> inferExportInfo [''proj'', ''src'', ''Foo.tsx''] ''export default memo(Foo);'' =
     \<lparr>importName = ''memo'',
      importLine = ''import memo from "Foo";'',
      jsxTag = ''<memo />''\<rparr>\<close>
  by code_simp

text \<open>
  Re-exports and renamed exports do reach the fallback: no pattern matches them.
\<close>

lemma reexport_falls_back:
  \<open>inferExportInfo [''proj'', ''src'', ''index.tsx''] ''export { Foo as Bar } from "./Foo";'' =
     \<lparr>importName = ''Index'',
      importLine = ''import Index from "index";'',
      jsxTag = ''<Index />''\<rparr>\<close>
  by code_simp

text \<open>
  Where rule 1 finds its name in a text: at a declaration \<^verbatim>\<open>export default function name\<close>
  with the whole identifier \<open>name\<close>, when the pattern matches at no earlier index. Nothing
  is asked of the text after the name, so an \<^verbatim>\<open>export const Bar = (\<close> before or after the
  declaration changes nothing.
\<close>

lemma is_word_not_space: "is_word c \<Longrightarrow> \<not> is_space c"
  by (auto simp: is_word_def is_space_def is_upper_def is_lower_def is_digit_def Let_def)

lemma takeWhile_name:
  assumes "\<forall>c \<in> set name. is_word c" and "post = [] \<or> \<not> is_word (hd post)"
  shows "takeWhile is_word (name @ post) = name"
proof -
  from assms(2) have "takeWhile is_word post = []"
    by (cases post) auto
  with assms(1) show ?thesis
    by (simp add: takeWhile_append2)
qed

lemma match_here_default_function:
  assumes "name \<noteq> []" and "\<forall>c \<in> set name. is_word c"
    and "post = [] \<or> \<not> is_word (hd post)"
  shows "match_here re_default_function (''export default function '' @ name @ post) = Some name"
proof -
  from assms(1,2) have sp: "takeWhile is_space (name @ post) = []"
    by (cases name) (auto dest: is_word_not_space)
  have d: "\<not> is_space CHR ''d''" and f: "\<not> is_space CHR ''f''" and s: "is_space CHR '' ''"
    by (simp_all add: is_space_def)
  from assms(1) have len: "Suc 0 \<le> length name"
    by (cases name) simp_all
  show ?thesis
    by (simp add: match_here_def re_default_function_def startsWith_def greedy_lengths_def
        d f s sp takeWhile_name [OF assms(2,3)] len)
qed

lemma js_match_here: "match_here r s = Some cap \<Longrightarrow> js_match r s = Some cap"
  by (cases s) simp_all

lemma js_match_skip:
  "\<forall>k < length pre. match_here r (drop k (pre @ s)) = None \<Longrightarrow>
     js_match r (pre @ s) = js_match r s"
proof (induction pre)
  case Nil
  show ?case by simp
next
  case (Cons c pre)
  from Cons.prems have "match_here r (drop 0 ((c # pre) @ s)) = None"
    by (metis length_greater_0_conv list.distinct(1))
  then have here: "match_here r (c # pre @ s) = None" by simp
  have "\<forall>k < length pre. match_here r (drop k (pre @ s)) = None"
  proof (intro allI impI)
    fix k assume "k < length pre"
    then have "Suc k < length (c # pre)" by simp
    with Cons.prems have "match_here r (drop (Suc k) ((c # pre) @ s)) = None" by blast
    then show "match_here r (drop k (pre @ s)) = None" by simp
  qed
  with Cons.IH here show ?case by simp
qed

lemma default_function_declaration_wins:
  assumes "name \<noteq> []" and "\<forall>c \<in> set name. is_word c"
    and "post = [] \<or> \<not> is_word (hd post)"
    and "\<forall>k < length pre. match_here re_default_function
           (drop k (pre @ ''export default function '' @ name @ post)) = None"
  shows "inferExportInfo filePath (pre @ ''export default function '' @ name @ post) =
           default_import name (relativeImport filePath)"
proof -
  from js_match_skip [OF assms(4)]
    js_match_here [OF match_here_default_function [OF assms(1-3)]]
  have "js_match re_default_function (pre @ ''export default function '' @ name @ post) =
      Some name"
    by simp
  then show ?thesis by (rule inferExportInfo_rule1)
qed

text \<open>
  Rule 1 reports the leftmost text that matches its pattern, and the name runs on over
  every identifier character. A text can hold the two declarations
  \<^verbatim>\<open>export default function Foo\<close> and \<^verbatim>\<open>export const Bar = (\<close> and still get another name:
  after a declaration that was commented out, rule 1 finds \<^verbatim>\<open>Old\<close>, and in a declaration of
  \<^verbatim>\<open>Foo2\<close> it finds \<^verbatim>\<open>Foo2\<close>.
\<close>

theorem rule_order_counterexample:
  \<open>commented_text =
     ''/* export default function Old() {} */ '' @ ''export default function Foo'' @
       ''() {} '' @ ''export const Bar = ('' @ '') => null;''
   \<and> importName (inferExportInfo [''src'', ''Foo.tsx''] commented_text) = ''Old''
   \<and> longer_name_text =
     ''export default function Foo'' @ ''2() {} '' @ ''export const Bar = ('' @ '') => null;''
   \<and> importName (inferExportInfo [''src'', ''Foo.tsx''] longer_name_text) = ''Foo2''\<close>
proof -
  have a: "importName (inferExportInfo [''src'', ''Foo.tsx''] commented_text) = ''Old''"
    by code_simp
  have b: "importName (inferExportInfo [''src'', ''Foo.tsx''] longer_name_text) = ''Foo2''"
    by code_simp
  from a b show ?thesis
    by (simp add: commented_text_def longer_name_text_def)
qed

lemma all_less_list_all: "(\<forall>k < n. P k) \<longleftrightarrow> list_all P [0 ..< n]"
  by (auto simp: list_all_iff)

text \<open>
  Claim C6, amended (the rules are tried in the order 1 to 4 and the first that matches
  wins, whatever a later rule would match and wherever the patterns stand in the text; in
  a file that holds \<^verbatim>\<open>export default function Foo\<close> with \<^verbatim>\<open>Foo\<close> the whole identifier and no
  match of rule 1's pattern before it, and \<^verbatim>\<open>export const Bar = (\<close> before or after it, the
  name is \<^verbatim>\<open>Foo\<close> from rule 1, not \<^verbatim>\<open>Bar\<close> from rule 4).
\<close>

theorem rule_order:
  "(\<forall>name. js_match re_default_function source = Some name \<longrightarrow>
      inferExportInfo filePath source = default_import name (relativeImport filePath))
   \<and> (js_match re_default_function source = None \<longrightarrow>
       (\<forall>name. js_match re_default source = Some name \<longrightarrow>
          inferExportInfo filePath source = default_import name (relativeImport filePath))
       \<and> (js_match re_default source = None \<longrightarrow>
           (\<forall>name. js_match re_function source = Some name \<longrightarrow>
              inferExportInfo filePath source = named_import name (relativeImport filePath))
           \<and> (js_match re_function source = None \<longrightarrow>
               (\<forall>name. js_match re_const source = Some name \<longrightarrow>
                  inferExportInfo filePath source =
                    named_import name (relativeImport filePath)))))
   \<and> (\<forall>pre post.
        source = pre @ ''export default function Foo'' @ post
        \<and> (post = [] \<or> \<not> is_word (hd post))
        \<and> (\<forall>k < length pre. match_here re_default_function (drop k source) = None)
        \<and> (\<exists>a b. source = a @ ''export const Bar = ('' @ b) \<longrightarrow>
          inferExportInfo filePath source = default_import ''Foo'' (relativeImport filePath)
          \<and> importName (inferExportInfo filePath source) = ''Foo'')"
proof -
  have text_level:
    "inferExportInfo filePath source = default_import ''Foo'' (relativeImport filePath)
     \<and> importName (inferExportInfo filePath source) = ''Foo''"
    if "source = pre @ ''export default function Foo'' @ post"
      "post = [] \<or> \<not> is_word (hd post)"
      "\<forall>k < length pre. match_here re_default_function (drop k source) = None"
    for pre post
  proof -
    have w: "\<forall>c \<in> set ''Foo''. is_word c"
      by (simp add: is_word_def is_upper_def is_lower_def is_digit_def)
    have s: "source = pre @ ''export default function '' @ ''Foo'' @ post"
      using that(1) by simp
    from that(3) have "\<forall>k < length pre. match_here re_default_function
        (drop k (pre @ ''export default function '' @ ''Foo'' @ post)) = None"
      unfolding s .
    from default_function_declaration_wins [OF _ w that(2) this, of filePath]
    have "inferExportInfo filePath source =
        default_import ''Foo'' (relativeImport filePath)"
      unfolding s by simp
    then show ?thesis by (simp add: default_import_def)
  qed
  have cascade:
    "(\<forall>name. js_match re_default_function source = Some name \<longrightarrow>
      inferExportInfo filePath source = default_import name (relativeImport filePath))
   \<and> (js_match re_default_function source = None \<longrightarrow>
       (\<forall>name. js_match re_default source = Some name \<longrightarrow>
          inferExportInfo filePath source = default_import name (relativeImport filePath))
       \<and> (js_match re_default source = None \<longrightarrow>
           (\<forall>name. js_match re_function source = Some name \<longrightarrow>
              inferExportInfo filePath source = named_import name (relativeImport filePath))
           \<and> (js_match re_function source = None \<longrightarrow>
               (\<forall>name. js_match re_const source = Some name \<longrightarrow>
                  inferExportInfo filePath source =
                    named_import name (relativeImport filePath)))))"
    by (simp add: inferExportInfo_def)
  from cascade text_level show ?thesis by blast
qed

theorem rule_order_witness:
  \<open>importName (inferExportInfo [''src'', ''Foo.tsx'']
       (''export const Bar = () => null; '' @ ''export default function Foo'' @ ''() {}'')) =
     ''Foo''
   \<and> list_all
        (\<lambda>k. match_here re_default_function
          (drop k (''export const Bar = () => null; '' @ ''export default function Foo'' @
             ''() {}'')) = None)
        [0 ..< length ''export const Bar = () => null; '']
   \<and> importName (inferExportInfo [''src'', ''Foo.tsx'']
       ([] @ ''export default function Foo'' @ ''() {} export const Bar = () => null;'')) =
     ''Foo''
   \<and> js_match re_default_function ''const Foo = 1; export default Foo;'' = None
   \<and> js_match re_default ''const Foo = 1; export default Foo;'' = Some ''Foo''
   \<and> inferExportInfo [''src'', ''Foo.tsx''] ''const Foo = 1; export default Foo;'' =
       default_import ''Foo'' (relativeImport [''src'', ''Foo.tsx''])
   \<and> js_match re_default_function ''export function Foo() {} export const Bar = () => null;'' = None
   \<and> js_match re_default ''export function Foo() {} export const Bar = () => null;'' = None
   \<and> js_match re_function ''export function Foo() {} export const Bar = () => null;'' = Some ''Foo''
   \<and> inferExportInfo [''src'', ''Foo.tsx'']
        ''export function Foo() {} export const Bar = () => null;'' =
       named_import ''Foo'' (relativeImport [''src'', ''Foo.tsx''])
   \<and> js_match re_default_function ''export const Bar = () => null;'' = None
   \<and> js_match re_default ''export const Bar = () => null;'' = None
   \<and> js_match re_function ''export const Bar = () => null;'' = None
   \<and> js_match re_const ''export const Bar = () => null;'' = Some ''Bar''
   \<and> inferExportInfo [''src'', ''Foo.tsx''] ''export const Bar = () => null;'' =
       named_import ''Bar'' (relativeImport [''src'', ''Foo.tsx''])\<close>
proof -
  let ?pre = "''export const Bar = () => null; ''"
  let ?after = "?pre @ ''export default function Foo'' @ ''() {}''"
  let ?before = "[] @ ''export default function Foo'' @ ''() {} export const Bar = () => null;''"
  have none_list: "list_all (\<lambda>k. match_here re_default_function (drop k ?after) = None)
      [0 ..< length ?pre]"
    by code_simp
  then have none_after:
    "\<forall>k < length ?pre. match_here re_default_function (drop k ?after) = None"
    by (simp only: all_less_list_all)
  have none_before:
    "\<forall>k < length ([] :: string). match_here re_default_function (drop k ?before) = None"
    by simp
  have boundary: "''() {}'' = [] \<or> \<not> is_word (hd ''() {}'')"
    "''() {} export const Bar = () => null;'' = [] \<or>
       \<not> is_word (hd ''() {} export const Bar = () => null;'')"
    by code_simp+
  have bar_after: "\<exists>a b. ?after = a @ ''export const Bar = ('' @ b"
    by (rule exI [of _ "[]"], rule exI [of _ "'') => null; export default function Foo() {}''"])
      simp
  have bar_before: "\<exists>a b. ?before = a @ ''export const Bar = ('' @ b"
    by (rule exI [of _ "''export default function Foo() {} ''"], rule exI [of _ "'') => null;''"])
      simp
  from rule_order [of ?after "[''src'', ''Foo.tsx'']"] none_after boundary(1) bar_after
  have a: "importName (inferExportInfo [''src'', ''Foo.tsx''] ?after) = ''Foo''"
    by blast
  from rule_order [of ?before "[''src'', ''Foo.tsx'']"] none_before boundary(2) bar_before
  have b: "importName (inferExportInfo [''src'', ''Foo.tsx''] ?before) = ''Foo''"
    by blast
  have c1: "js_match re_default_function ''const Foo = 1; export default Foo;'' = None"
    by code_simp
  have c2: "js_match re_default ''const Foo = 1; export default Foo;'' = Some ''Foo''"
    by code_simp
  have d1: "js_match re_default_function
      ''export function Foo() {} export const Bar = () => null;'' = None"
    by code_simp
  have d2: "js_match re_default ''export function Foo() {} export const Bar = () => null;'' = None"
    by code_simp
  have d3: "js_match re_function
      ''export function Foo() {} export const Bar = () => null;'' = Some ''Foo''"
    by code_simp
  have e1: "js_match re_default_function ''export const Bar = () => null;'' = None"
    by code_simp
  have e2: "js_match re_default ''export const Bar = () => null;'' = None"
    by code_simp
  have e3: "js_match re_function ''export const Bar = () => null;'' = None"
    by code_simp
  have e4: "js_match re_const ''export const Bar = () => null;'' = Some ''Bar''"
    by code_simp
  from c1 c2 rule_order [of "''const Foo = 1; export default Foo;''" "[''src'', ''Foo.tsx'']"]
  have c: "inferExportInfo [''src'', ''Foo.tsx''] ''const Foo = 1; export default Foo;'' =
       default_import ''Foo'' (relativeImport [''src'', ''Foo.tsx''])"
    by blast
  from d1 d2 d3
    rule_order [of "''export function Foo() {} export const Bar = () => null;''"
      "[''src'', ''Foo.tsx'']"]
  have d: "inferExportInfo [''src'', ''Foo.tsx'']
        ''export function Foo() {} export const Bar = () => null;'' =
       named_import ''Foo'' (relativeImport [''src'', ''Foo.tsx''])"
    by blast
  from e1 e2 e3 e4 rule_order [of "''export const Bar = () => null;''" "[''src'', ''Foo.tsx'']"]
  have e: "inferExportInfo [''src'', ''Foo.tsx''] ''export const Bar = () => null;'' =
       named_import ''Bar'' (relativeImport [''src'', ''Foo.tsx''])"
    by blast
  from a none_list b c1 c2 c d1 d2 d3 d e1 e2 e3 e4 e show ?thesis
    by (intro conjI)
qed

text \<open>
  Claim C8 (when no rule matches, the name is the base name of the file with its first
  character in upper case and the rest as it is, or \<^verbatim>\<open>ComponentUnderTest\<close> for an empty
  base name; either way the import is a default import and the tag is self-closing). The
  first character is a code unit below 256 whose capital is one too, that is any but U+00B5
  and U+00FF, and \<open>upper_char\<close> is its capital.
\<close>

theorem fallback_name:
  assumes "js_match re_default_function source = None"
    and "js_match re_default source = None"
    and "js_match re_function source = None"
    and "js_match re_const source = None"
    and "case path_basename filePath (path_extname filePath) of
           [] \<Rightarrow> True | c # rest \<Rightarrow> has_capital c"
  shows \<open>importName (inferExportInfo filePath source) =
           (case path_basename filePath (path_extname filePath) of
              [] \<Rightarrow> ''ComponentUnderTest''
            | c # rest \<Rightarrow> upper_char c @ rest)
         \<and> importLine (inferExportInfo filePath source) =
             ''import '' @ importName (inferExportInfo filePath source) @ '' from "'' @
               relativeImport filePath @ ''";''
         \<and> jsxTag (inferExportInfo filePath source) =
             ''<'' @ importName (inferExportInfo filePath source) @ '' />''\<close>
  using assms(1-4)
  by (simp add: inferExportInfo_no_match default_import_def fallbackName_empty
      fallbackName_nonempty split: list.split)

theorem fallback_name_witness:
  \<open>js_match re_default_function ''const x = 1;'' = None
   \<and> js_match re_default ''const x = 1;'' = None
   \<and> js_match re_function ''const x = 1;'' = None
   \<and> js_match re_const ''const x = 1;'' = None
   \<and> has_capital CHR ''w''
   \<and> importName (inferExportInfo [''src'', ''widget.tsx''] ''const x = 1;'') = ''Widget''
   \<and> jsxTag (inferExportInfo [''src'', ''widget.tsx''] ''const x = 1;'') = ''<Widget />''
   \<and> has_capital (CHR 0xE9)
   \<and> importName (inferExportInfo [''src'', CHR 0xE9 # ''cran.tsx''] ''const x = 1;'') =
       CHR 0xC9 # ''cran''
   \<and> importName (inferExportInfo [] ''const x = 1;'') = ''ComponentUnderTest''
   \<and> jsxTag (inferExportInfo [] ''const x = 1;'') = ''<ComponentUnderTest />''\<close>
proof -
  have n1: "js_match re_default_function ''const x = 1;'' = None" by code_simp
  have n2: "js_match re_default ''const x = 1;'' = None" by code_simp
  have n3: "js_match re_function ''const x = 1;'' = None" by code_simp
  have n4: "js_match re_const ''const x = 1;'' = None" by code_simp
  have b1: "path_basename [''src'', ''widget.tsx''] (path_extname [''src'', ''widget.tsx'']) =
              ''widget''"
    by code_simp
  have b2: "path_basename [] (path_extname []) = []"
    by code_simp
  have b3: "path_basename [''src'', CHR 0xE9 # ''cran.tsx'']
      (path_extname [''src'', CHR 0xE9 # ''cran.tsx'']) = CHR 0xE9 # ''cran''"
    by code_simp
  have h: "has_capital CHR ''w''" "has_capital (CHR 0xE9)"
    by code_simp+
  have u: "upper_char CHR ''w'' = ''W''" "upper_char (CHR 0xE9) = [CHR 0xC9]"
    by code_simp+
  from fallback_name [OF n1 n2 n3 n4, of "[''src'', ''widget.tsx'']"]
    fallback_name [OF n1 n2 n3 n4, of "[]"]
    fallback_name [OF n1 n2 n3 n4, of "[''src'', CHR 0xE9 # ''cran.tsx'']"] n1 n2 n3 n4 h
  show ?thesis
    by (simp add: b1 b2 b3 u)
qed

subsection \<open>File discovery\<close>

lemma walk_entries_results_aux:
  assumes "\<And>name child d rs. (name, child) \<in> set es \<Longrightarrow> walk d child rs = rs @ walk d child []"
  shows "walk_entries dir es results = results @ walk_entries dir es []"
  using assms
proof (induction es arbitrary: results)
  case Nil
  show ?case by simp
next
  case (Cons e es)
  obtain name child where e: "e = (name, child)" by (cases e)
  have tl: "walk_entries dir es rs = rs @ walk_entries dir es []" for rs
  proof (rule Cons.IH)
    fix name child d rs'
    assume "(name, child) \<in> set es"
    then have "(name, child) \<in> set (e # es)" by simp
    then show "walk d child rs' = rs' @ walk d child []" by (rule Cons.prems)
  qed
  have hd: "walk d child rs = rs @ walk d child []" for d rs
    by (rule Cons.prems [of name]) (simp add: e)
  show ?case
    unfolding e
    by (simp add: tl [of "walk (path_join dir name) child results"]
        tl [of "walk (path_join dir name) child []"]
        tl [of "results @ [path_join dir name]"] tl [of "[path_join dir name]"]
        tl [of "results @ walk (path_join dir name) child []"]
        tl [of results] hd [of _ results])
qed

lemma walk_results: "walk dir n results = results @ walk dir n []"
proof (induction n arbitrary: dir results)
  case (File r w s)
  show ?case by simp
next
  case (Dir l c es)
  have "walk_entries dir es results = results @ walk_entries dir es []"
  proof (rule walk_entries_results_aux)
    fix name child d rs
    assume "(name, child) \<in> set es"
    then show "walk d child rs = rs @ walk d child []"
      by (rule Dir.IH) simp
  qed
  then show ?case by simp
qed

lemma walk_entries_results:
  "walk_entries dir es results = results @ walk_entries dir es []"
  by (rule walk_entries_results_aux) (rule walk_results)

lemma walk_entries_append:
  "walk_entries dir (es @ es') results = walk_entries dir es' (walk_entries dir es results)"
  by (induction es arbitrary: results) auto

lemma walk_entries_Cons_set:
  "set (walk_entries dir ((name, child) # rest) []) =
     (if isDirectory child
      then (if name \<in> set excluded_dirs then {} else set (walk (path_join dir name) child []))
      else if component_name name then {path_join dir name} else {})
     \<union> set (walk_entries dir rest [])"
proof -
  have a: "walk_entries dir rest (walk (path_join dir name) child []) =
             walk (path_join dir name) child [] @ walk_entries dir rest []"
    by (rule walk_entries_results)
  have b: "walk_entries dir rest [path_join dir name] =
             [path_join dir name] @ walk_entries dir rest []"
    by (rule walk_entries_results)
  show ?thesis
    by (simp add: a b component_name_def excluded_name_def)
qed

lemma visited_nonempty: "visited n rel \<Longrightarrow> rel \<noteq> []"
  by (cases n; cases rel) simp_all

lemma visited_unlistable: "\<not> visited (Dir False c es) rel"
  by (cases rel) simp_all

lemma ex_entry_Cons:
  "(\<exists>n c. (n, c) \<in> set ((name, child) # es) \<and> Q n c) \<longleftrightarrow>
     Q name child \<or> (\<exists>n c. (n, c) \<in> set es \<and> Q n c)"
  by auto

lemma in_walk_entries_aux:
  assumes "\<And>name child d p. (name, child) \<in> set es \<Longrightarrow>
             (p \<in> set (walk d child []) \<longleftrightarrow>
               (\<exists>rel. p = d @ rel \<and> visited child rel \<and> component_name (last rel)))"
  shows "p \<in> set (walk_entries dir es []) \<longleftrightarrow>
           (\<exists>name child. (name, child) \<in> set es \<and>
              (if isDirectory child
               then name \<notin> set excluded_dirs \<and>
                    (\<exists>rel. p = dir @ name # rel \<and> visited child rel \<and> component_name (last rel))
               else p = dir @ [name] \<and> component_name name))"
  using assms
proof (induction es)
  case Nil
  show ?case by simp
next
  case (Cons e es)
  obtain name child where e: "e = (name, child)" by (cases e)
  have hd: "p \<in> set (walk (dir @ [name]) child []) \<longleftrightarrow>
              (\<exists>rel. p = dir @ name # rel \<and> visited child rel \<and> component_name (last rel))"
  proof -
    have "(name, child) \<in> set (e # es)" by (simp add: e)
    then have "p \<in> set (walk (dir @ [name]) child []) \<longleftrightarrow>
        (\<exists>rel. p = (dir @ [name]) @ rel \<and> visited child rel \<and> component_name (last rel))"
      by (rule Cons.prems)
    then show ?thesis by simp
  qed
  have tl: "p \<in> set (walk_entries dir es []) \<longleftrightarrow>
           (\<exists>name child. (name, child) \<in> set es \<and>
              (if isDirectory child
               then name \<notin> set excluded_dirs \<and>
                    (\<exists>rel. p = dir @ name # rel \<and> visited child rel \<and> component_name (last rel))
               else p = dir @ [name] \<and> component_name name))"
  proof (rule Cons.IH)
    fix name child d p
    assume "(name, child) \<in> set es"
    then have "(name, child) \<in> set (e # es)" by simp
    then show "p \<in> set (walk d child []) \<longleftrightarrow>
               (\<exists>rel. p = d @ rel \<and> visited child rel \<and> component_name (last rel))"
      by (rule Cons.prems)
  qed
  show ?case
    unfolding e walk_entries_Cons_set Un_iff tl ex_entry_Cons
    by (simp add: hd path_join_def)
qed

lemma in_walk:
  "p \<in> set (walk dir n []) \<longleftrightarrow>
     (\<exists>rel. p = dir @ rel \<and> visited n rel \<and> component_name (last rel))"
proof (induction n arbitrary: dir p)
  case (File r w s)
  show ?case by simp
next
  case (Dir l c es)
  have entries: "p \<in> set (walk_entries dir es []) \<longleftrightarrow>
           (\<exists>name child. (name, child) \<in> set es \<and>
              (if isDirectory child
               then name \<notin> set excluded_dirs \<and>
                    (\<exists>rel. p = dir @ name # rel \<and> visited child rel \<and> component_name (last rel))
               else p = dir @ [name] \<and> component_name name))"
  proof (rule in_walk_entries_aux)
    fix name child d q
    assume "(name, child) \<in> set es"
    then show "q \<in> set (walk d child []) \<longleftrightarrow>
                 (\<exists>rel. q = d @ rel \<and> visited child rel \<and> component_name (last rel))"
      by (rule Dir.IH) simp
  qed
  show ?case
  proof (cases l)
    case False
    then show ?thesis
      by (auto simp: visited_unlistable)
  next
    case True
    show ?thesis
    proof
      assume "p \<in> set (walk dir (Dir l c es) [])"
      with True entries obtain name child where
        mem: "(name, child) \<in> set es" and
        choice: "if isDirectory child
               then name \<notin> set excluded_dirs \<and>
                    (\<exists>rel. p = dir @ name # rel \<and> visited child rel \<and> component_name (last rel))
               else p = dir @ [name] \<and> component_name name"
        by auto
      show "\<exists>rel. p = dir @ rel \<and> visited (Dir l c es) rel \<and> component_name (last rel)"
      proof (cases "isDirectory child")
        case True
        with choice obtain rel where
          rel: "name \<notin> set excluded_dirs" "p = dir @ name # rel" "visited child rel"
            "component_name (last rel)"
          by auto
        from rel(3) have ne: "rel \<noteq> []" by (rule visited_nonempty)
        with mem True rel \<open>l\<close> have "visited (Dir l c es) (name # rel)"
          by auto
        with rel ne show ?thesis by auto
      next
        case False
        with choice have "p = dir @ [name]" "component_name name" by auto
        moreover from mem False \<open>l\<close> have "visited (Dir l c es) [name]" by auto
        ultimately show ?thesis by auto
      qed
    next
      assume "\<exists>rel. p = dir @ rel \<and> visited (Dir l c es) rel \<and> component_name (last rel)"
      then obtain rel where rel: "p = dir @ rel" "visited (Dir l c es) rel"
        "component_name (last rel)"
        by auto
      from rel(2) obtain name rel' where r: "rel = name # rel'"
        by (cases rel) auto
      with rel(2) obtain child where mem: "(name, child) \<in> set es" and
        choice: "if rel' = [] then \<not> isDirectory child
           else isDirectory child \<and> name \<notin> set excluded_dirs \<and> visited child rel'"
        by auto
      have "p \<in> set (walk_entries dir es [])"
      proof (cases "rel' = []")
        case True
        with mem choice rel(1,3) r show ?thesis
          unfolding entries by (intro exI [of _ name] exI [of _ child]) simp
      next
        case False
        with mem choice rel(1,3) r show ?thesis
          unfolding entries by (intro exI [of _ name] exI [of _ child]) simp
      qed
      with True show "p \<in> set (walk dir (Dir l c es) [])" by simp
    qed
  qed
qed

lemma visited_avoids_excluded_dirs:
  "visited n rel \<Longrightarrow> d \<in> set (butlast rel) \<Longrightarrow> d \<notin> set excluded_dirs"
  by (induction n rel rule: visited.induct) (auto split: if_splits)

lemma visited_file:
  "(name, child) \<in> set es \<Longrightarrow> \<not> isDirectory child \<Longrightarrow> visited (Dir True c es) [name]"
  by (auto intro!: bexI [of _ "(name, child)"])

lemma visited_step:
  "(name, child) \<in> set es \<Longrightarrow> isDirectory child \<Longrightarrow> name \<notin> set excluded_dirs \<Longrightarrow>
   visited child rel \<Longrightarrow> visited (Dir True c es) (name # rel)"
  by (cases rel) (auto intro!: bexI [of _ "(name, child)"] dest: visited_nonempty)

lemma findComponentFiles_iff:
  assumes "lookup root dir = Some n"
  shows "p \<in> set (findComponentFiles root dir) \<longleftrightarrow>
           (\<exists>rel. p = dir @ rel \<and> visited n rel \<and> component_name (last rel))"
  using assms by (simp add: findComponentFiles_def in_walk)

lemma sample_lookup: "lookup sample_root [''proj'', ''src''] = Some sample_src"
  by (simp add: sample_root_def)

lemma sample_files:
  "findComponentFiles sample_root [''proj'', ''src''] =
     [[''proj'', ''src'', ''Button.tsx''],
      [''proj'', ''src'', ''Card.tsx''],
      [''proj'', ''src'', ''.cache'', ''Tmp.tsx'']]"
  by code_simp

text \<open>
  Claim C7 (discovery never selects a file whose name ends with \<^verbatim>\<open>.test.tsx\<close> or
  \<^verbatim>\<open>.stories.tsx\<close> or starts with a dot, never goes into a directory named
  \<^verbatim>\<open>node_modules\<close>, \<^verbatim>\<open>dist\<close>, \<^verbatim>\<open>build\<close> or \<^verbatim>\<open>.git\<close>, and takes each of the other files exactly
  when its extension is \<^verbatim>\<open>.tsx\<close>). The third part says that an entry with one of the four
  names, when it is a directory, is passed over without a look at what it holds.
\<close>

theorem discovery_selection:
  assumes "lookup root dir = Some n"
  shows "(\<forall>p \<in> set (findComponentFiles root dir). \<exists>rel.
            p = dir @ rel \<and> visited n rel
            \<and> \<not> endsWith (last rel) ''.test.tsx''
            \<and> \<not> endsWith (last rel) ''.stories.tsx''
            \<and> \<not> startsWith (last rel) ''.''
            \<and> (\<forall>d \<in> set (butlast rel). d \<notin> {''node_modules'', ''dist'', ''build'', ''.git''}))
       \<and> (\<forall>rel. visited n rel
              \<and> \<not> endsWith (last rel) ''.test.tsx''
              \<and> \<not> endsWith (last rel) ''.stories.tsx''
              \<and> \<not> startsWith (last rel) ''.'' \<longrightarrow>
            (dir @ rel \<in> set (findComponentFiles root dir) \<longleftrightarrow> extname (last rel) = ''.tsx''))
       \<and> (\<forall>name \<in> {''node_modules'', ''dist'', ''build'', ''.git''}.
            \<forall>child d rest results. isDirectory child \<longrightarrow>
              walk_entries d ((name, child) # rest) results = walk_entries d rest results)"
proof (intro conjI ballI allI impI)
  fix p
  assume "p \<in> set (findComponentFiles root dir)"
  with assms obtain rel where rel: "p = dir @ rel" "visited n rel" "component_name (last rel)"
    by (auto simp: findComponentFiles_iff)
  from rel(2) have "\<forall>d \<in> set (butlast rel). d \<notin> {''node_modules'', ''dist'', ''build'', ''.git''}"
    using visited_avoids_excluded_dirs [of n rel] by (auto simp: excluded_dirs_def)
  with rel show "\<exists>rel. p = dir @ rel \<and> visited n rel
            \<and> \<not> endsWith (last rel) ''.test.tsx''
            \<and> \<not> endsWith (last rel) ''.stories.tsx''
            \<and> \<not> startsWith (last rel) ''.''
            \<and> (\<forall>d \<in> set (butlast rel). d \<notin> {''node_modules'', ''dist'', ''build'', ''.git''})"
    by (auto simp: component_name_def excluded_name_def)
next
  fix rel
  assume "visited n rel \<and> \<not> endsWith (last rel) ''.test.tsx''
              \<and> \<not> endsWith (last rel) ''.stories.tsx'' \<and> \<not> startsWith (last rel) ''.''"
  with assms show "dir @ rel \<in> set (findComponentFiles root dir) \<longleftrightarrow> extname (last rel) = ''.tsx''"
    by (simp add: findComponentFiles_iff component_name_def excluded_name_def
        COMPONENT_EXTENSIONS_def)
next
  fix name child d rest results
  assume "name \<in> {''node_modules'', ''dist'', ''build'', ''.git''}" "isDirectory child"
  then show "walk_entries d ((name, child) # rest) results = walk_entries d rest results"
    by (simp add: excluded_dirs_def)
qed

theorem discovery_selection_witness:
  "lookup sample_root [''proj'', ''src''] = Some sample_src
   \<and> [''proj'', ''src'', ''Button.tsx''] \<in> set (findComponentFiles sample_root [''proj'', ''src''])
   \<and> visited sample_src [''notes.txt'']
   \<and> [''proj'', ''src'', ''notes.txt''] \<notin> set (findComponentFiles sample_root [''proj'', ''src''])
   \<and> [''proj'', ''src'', ''Card.test.tsx''] \<notin> set (findComponentFiles sample_root [''proj'', ''src''])
   \<and> isDirectory (Dir True True [(''pkg.tsx'', File True True [])])
   \<and> walk_entries [''proj'', ''src'']
        [(''node_modules'', Dir True True [(''pkg.tsx'', File True True [])])] [] = []"
proof -
  note sel = discovery_selection [OF sample_lookup]
  have v: "visited sample_src [''notes.txt'']"
    by (simp add: sample_src_def)
  have n: "\<not> endsWith ''notes.txt'' ''.test.tsx'' \<and> \<not> endsWith ''notes.txt'' ''.stories.tsx''
      \<and> \<not> startsWith ''notes.txt'' ''.'' \<and> extname ''notes.txt'' \<noteq> ''.tsx''"
    by code_simp
  from sel v n have no_notes:
    "[''proj'', ''src'', ''notes.txt''] \<notin> set (findComponentFiles sample_root [''proj'', ''src''])"
    by fastforce
  have t: "endsWith ''Card.test.tsx'' ''.test.tsx''"
    by code_simp
  from sel t have test:
    "[''proj'', ''src'', ''Card.test.tsx''] \<notin> set (findComponentFiles sample_root [''proj'', ''src''])"
    by fastforce
  from sel have nm: "walk_entries [''proj'', ''src'']
        [(''node_modules'', Dir True True [(''pkg.tsx'', File True True [])])] [] = []"
    by simp
  from no_notes test nm v show ?thesis
    by (simp add: sample_lookup sample_files)
qed

text \<open>
  Claim C9 (a directory that cannot be read contributes no file, raises nothing, and the
  walk goes on with its siblings; a root that cannot be read gives the empty list).
  \<open>walk\<close> and \<open>findComponentFiles\<close> are total and return the list of results: there is no
  error for the caller to see.
\<close>

theorem unreadable_directory:
  "walk dir (Dir False c es) results = results
   \<and> walk_entries dir (before @ [(name, Dir False c es)] @ after) results =
       walk_entries dir (before @ after) results
   \<and> (lookup root dir = None \<longrightarrow> findComponentFiles root dir = [])
   \<and> (lookup root dir = Some (Dir False c es) \<longrightarrow> findComponentFiles root dir = [])"
  by (simp add: walk_entries_append findComponentFiles_def)

theorem unreadable_directory_witness:
  "lookup sample_root [''proj'', ''lib''] = None
   \<and> findComponentFiles sample_root [''proj'', ''lib''] = []
   \<and> lookup sample_root [''proj'', ''src'', ''locked''] =
       Some (Dir False True [(''Secret.tsx'', File True True [])])
   \<and> findComponentFiles sample_root [''proj'', ''src'', ''locked''] = []"
proof -
  have a: "lookup sample_root [''proj'', ''lib''] = None"
    by (simp add: sample_root_def)
  have b: "lookup sample_root [''proj'', ''src'', ''locked''] =
       Some (Dir False True [(''Secret.tsx'', File True True [])])"
    by (simp add: sample_root_def sample_src_def)
  from a b
    unreadable_directory [where root = sample_root and dir = "[''proj'', ''lib'']"]
    unreadable_directory [where root = sample_root and dir = "[''proj'', ''src'', ''locked'']"
      and c = True and es = "[(''Secret.tsx'', File True True [])]"]
  show ?thesis by simp
qed

text \<open>
  Claim C10 (the rule about a leading dot is for files only: a directory whose name starts
  with a dot and is not \<^verbatim>\<open>.git\<close> is walked like any other, and a component file in it is
  selected).
\<close>

theorem dot_directory_walked:
  assumes "startsWith name ''.''" and "name \<noteq> ''.git''"
  shows "walk_entries dir ((name, Dir True c es) # rest) results =
           walk_entries dir rest (walk_entries (path_join dir name) es results)
         \<and> (lookup root dir = Some (Dir True c' es') \<and> (name, Dir True c es) \<in> set es'
              \<and> (f, File r w s) \<in> set es \<and> component_name f \<longrightarrow>
            dir @ [name, f] \<in> set (findComponentFiles root dir))"
proof -
  from assms have ex: "name \<notin> set excluded_dirs"
    by (auto simp: excluded_dirs_def startsWith_def)
  have "dir @ [name, f] \<in> set (findComponentFiles root dir)"
    if "lookup root dir = Some (Dir True c' es')" "(name, Dir True c es) \<in> set es'"
      "(f, File r w s) \<in> set es" "component_name f"
  proof -
    have inner: "visited (Dir True c es) [f]"
      by (rule visited_file [OF that(3)]) simp
    have "visited (Dir True c' es') [name, f]"
      by (rule visited_step [OF that(2) _ ex inner]) simp
    with that(1,4) show ?thesis
      by (auto simp: findComponentFiles_iff)
  qed
  with ex show ?thesis by simp
qed

theorem dot_directory_walked_witness:
  "startsWith ''.cache'' ''.'' \<and> ''.cache'' \<noteq> ''.git''
   \<and> lookup sample_root [''proj'', ''src''] = Some sample_src
   \<and> (''Tmp.tsx'', File True True []) \<in> set [(''Tmp.tsx'', File True True [])]
   \<and> component_name ''Tmp.tsx''
   \<and> [''proj'', ''src'', ''.cache'', ''Tmp.tsx''] \<in>
       set (findComponentFiles sample_root [''proj'', ''src''])"
proof -
  have a: "startsWith ''.cache'' ''.''" by (simp add: startsWith_def)
  have b: "''.cache'' \<noteq> ''.git''" by simp
  have c: "component_name ''Tmp.tsx''" by code_simp
  have d: "lookup sample_root [''proj'', ''src''] =
      Some (Dir True True (case sample_src of Dir l c es \<Rightarrow> es))"
    by (simp add: sample_root_def sample_src_def)
  have e: "(''.cache'', Dir True True [(''Tmp.tsx'', File True True [])]) \<in>
      set (case sample_src of Dir l c es \<Rightarrow> es)"
    by (simp add: sample_src_def)
  from dot_directory_walked [OF a b, where c = True and es = "[(''Tmp.tsx'', File True True [])]"
      and root = sample_root and dir = "[''proj'', ''src'']" and c' = True
      and es' = "case sample_src of Dir l c es \<Rightarrow> es"
      and f = "''Tmp.tsx''" and r = True and w = True and s = "[]"] a b c d e
  show ?thesis by (simp add: sample_lookup)
qed

subsection \<open>Writing a file\<close>

lemma map_of_set_entry:
  "map_of (set_entry name n es) k = (if k = name then Some n else map_of es k)"
  by (induction es) auto

lemma set_entry_absent:
  "map_of es name = None \<Longrightarrow> set_entry name n es = es @ [(name, n)]"
  by (induction es) (auto split: if_splits)

lemma writeFile_isDirectory:
  "writeFile n p data = Inr n' \<Longrightarrow> isDirectory n' = isDirectory n"
  by (cases n; cases p) (auto split: if_splits option.splits sum.splits)

text \<open>After a successful write the path holds a plain file with the data.\<close>

lemma writeFile_contents:
  "writeFile n p data = Inr n' \<Longrightarrow> contents n' p = Some data"
proof (induction n p data arbitrary: n' rule: writeFile.induct)
  case (4 l c es name p data)
  show ?case
  proof (cases "map_of es name")
    case None
    with "4.prems" show ?thesis
      by (auto simp: contents_def map_of_set_entry split: if_splits)
  next
    case (Some child)
    with "4.prems" obtain child' where c: "writeFile child p data = Inr child'"
      "n' = Dir l c (set_entry name child' es)"
      by (auto split: sum.splits)
    from "4.IH" [OF Some c(1)] have "contents child' p = Some data" .
    with c(2) show ?thesis
      by (simp add: contents_def map_of_set_entry)
  qed
qed (auto simp: contents_def split: if_splits)

lemma writeFile_exists: "writeFile n p data = Inr n' \<Longrightarrow> lookup n' p \<noteq> None"
  by (drule writeFile_contents) (auto simp: contents_def split: option.splits)

text \<open>A write changes no other plain file, and makes none.\<close>

lemma writeFile_file_at:
  "writeFile n p data = Inr n' \<Longrightarrow> q \<noteq> p \<Longrightarrow> file_at n' q = file_at n q"
proof (induction n p data arbitrary: n' q rule: writeFile.induct)
  case (1 r w old data)
  then show ?case
    by (cases q) (auto simp: file_at_def split: if_splits)
next
  case (4 l c es name p data)
  show ?case
  proof (cases q)
    case Nil
    with "4.prems" show ?thesis
      by (auto simp: file_at_def split: if_splits option.splits sum.splits)
  next
    case (Cons k q')
    show ?thesis
    proof (cases "map_of es name")
      case None
      with "4.prems" have n': "n' = Dir l c (set_entry name (File True True data) es)" "p = []"
        by (auto split: if_splits)
      with "4.prems"(2) Cons None show ?thesis
        by (cases q') (auto simp: file_at_def map_of_set_entry)
    next
      case (Some child)
      with "4.prems" obtain child' where c: "writeFile child p data = Inr child'"
        "n' = Dir l c (set_entry name child' es)"
        by (auto split: sum.splits)
      show ?thesis
      proof (cases "k = name")
        case True
        with "4.prems"(2) Cons have "q' \<noteq> p" by simp
        from "4.IH" [OF Some c(1) this] have "file_at child' q' = file_at child q'" .
        with c(2) Cons True Some show ?thesis
          by (simp add: file_at_def map_of_set_entry)
      next
        case False
        with c(2) Cons show ?thesis
          by (simp add: file_at_def map_of_set_entry)
      qed
    qed
  qed
qed auto

lemma contents_file_at: "contents root p = map_option (\<lambda>(r, w, s). s) (file_at root p)"
  by (simp add: contents_def file_at_def split: option.split node.split)

lemma readFile_file_at:
  "readFile root p = Inr s \<longleftrightarrow> (\<exists>w. file_at root p = Some (True, w, s))"
  by (auto simp: readFile_def file_at_def split: option.split node.split)

lemma writeFile_other:
  "writeFile n p data = Inr n' \<Longrightarrow> q \<noteq> p \<Longrightarrow> contents n' q = contents n q"
  by (simp add: contents_file_at writeFile_file_at)

lemma writeFile_readFile:
  "writeFile n p data = Inr n' \<Longrightarrow> q \<noteq> p \<Longrightarrow>
     readFile n' q = Inr s \<longleftrightarrow> readFile n q = Inr s"
  by (simp add: readFile_file_at writeFile_file_at)

text \<open>A write removes nothing.\<close>

lemma writeFile_access:
  "writeFile n p data = Inr n' \<Longrightarrow> lookup n q \<noteq> None \<Longrightarrow> lookup n' q \<noteq> None"
proof (induction n p data arbitrary: n' q rule: writeFile.induct)
  case (1 r w old data)
  then show ?case
    by (cases q) (auto split: if_splits)
next
  case (4 l c es name p data)
  show ?case
  proof (cases q)
    case Nil
    then show ?thesis by simp
  next
    case (Cons k q')
    show ?thesis
    proof (cases "map_of es name")
      case None
      with "4.prems" have n': "n' = Dir l c (set_entry name (File True True data) es)"
        by (auto split: if_splits)
      with "4.prems"(2) Cons None show ?thesis
        by (auto simp: map_of_set_entry split: option.splits)
    next
      case (Some child)
      with "4.prems" obtain child' where c: "writeFile child p data = Inr child'"
        "n' = Dir l c (set_entry name child' es)"
        by (auto split: sum.splits)
      show ?thesis
      proof (cases "k = name")
        case True
        with "4.prems"(2) Cons Some have "lookup child q' \<noteq> None" by simp
        from "4.IH" [OF Some c(1) this] have "lookup child' q' \<noteq> None" .
        with c(2) Cons True show ?thesis
          by (simp add: map_of_set_entry)
      next
        case False
        with c(2) Cons "4.prems"(2) show ?thesis
          by (simp add: map_of_set_entry)
      qed
    qed
  qed
qed auto

subsection \<open>Writing a test file does not change what the walk finds\<close>

lemma walk_entries_snoc_other:
  "\<not> isDirectory n \<Longrightarrow> \<not> component_name name \<Longrightarrow>
     walk_entries dir (es @ [(name, n)]) results = walk_entries dir es results"
  by (auto simp: walk_entries_append component_name_def excluded_name_def)

lemma walk_entries_set_entry:
  assumes "map_of es name = Some child"
    and "isDirectory child' = isDirectory child"
    and "\<And>d rs. walk d child' rs = walk d child rs"
  shows "walk_entries dir (set_entry name child' es) results = walk_entries dir es results"
  using assms(1)
proof (induction es arbitrary: results)
  case Nil
  then show ?case by simp
next
  case (Cons e es)
  obtain k old where e: "e = (k, old)" by (cases e)
  show ?case
  proof (cases "k = name")
    case True
    with Cons.prems e have "old = child" by simp
    with True e assms(2,3) show ?thesis by simp
  next
    case False
    with Cons.prems e have "map_of es name = Some child" by simp
    then have "\<And>rs. walk_entries dir (set_entry name child' es) rs = walk_entries dir es rs"
      by (rule Cons.IH)
    with False e show ?thesis by simp
  qed
qed

lemma writeFile_walk:
  "writeFile n p data = Inr n' \<Longrightarrow> p = [] \<or> \<not> component_name (last p) \<Longrightarrow>
     walk dir n' results = walk dir n results"
proof (induction n p data arbitrary: n' dir results rule: writeFile.induct)
  case (1 r w old data)
  then show ?case by (auto split: if_splits)
next
  case (4 l c es name p data)
  show ?case
  proof (cases "map_of es name")
    case None
    with "4.prems" have n': "n' = Dir l c (es @ [(name, File True True data)])" "p = []"
      by (auto simp: set_entry_absent split: if_splits)
    with "4.prems"(2) have "\<not> component_name name" by simp
    with n' show ?thesis
      by (simp add: walk_entries_snoc_other)
  next
    case (Some child)
    with "4.prems" obtain child' where c: "writeFile child p data = Inr child'"
      "n' = Dir l c (set_entry name child' es)"
      by (auto split: sum.splits)
    from "4.prems"(2) have p: "p = [] \<or> \<not> component_name (last p)"
      by (auto split: if_splits)
    have "walk_entries dir (set_entry name child' es) results = walk_entries dir es results"
    proof (rule walk_entries_set_entry [OF Some])
      show "isDirectory child' = isDirectory child"
        using c(1) by (rule writeFile_isDirectory)
      show "walk d child' rs = walk d child rs" for d rs
        using Some c(1) p by (rule "4.IH")
    qed
    with c(2) show ?thesis by simp
  qed
qed auto

lemma writeFile_findComponentFiles_aux:
  "writeFile n p data = Inr n' \<Longrightarrow> p = [] \<or> \<not> component_name (last p) \<Longrightarrow>
     (case lookup n' d of None \<Rightarrow> [] | Some m \<Rightarrow> walk dir m []) =
     (case lookup n d of None \<Rightarrow> [] | Some m \<Rightarrow> walk dir m [])"
proof (induction n p data arbitrary: n' d rule: writeFile.induct)
  case (1 r w old data)
  then show ?case
    by (cases d) (auto split: if_splits)
next
  case (4 l c es name p data)
  show ?case
  proof (cases d)
    case Nil
    with writeFile_walk [OF "4.prems"] show ?thesis by simp
  next
    case (Cons k d')
    show ?thesis
    proof (cases "map_of es name")
      case None
      with "4.prems" have n': "n' = Dir l c (set_entry name (File True True data) es)"
        by (auto split: if_splits)
      with Cons None show ?thesis
        by (cases d') (auto simp: map_of_set_entry)
    next
      case (Some child)
      with "4.prems" obtain child' where c: "writeFile child p data = Inr child'"
        "n' = Dir l c (set_entry name child' es)"
        by (auto split: sum.splits)
      from "4.prems"(2) have p: "p = [] \<or> \<not> component_name (last p)"
        by (auto split: if_splits)
      from "4.IH" [OF Some c(1) p, of d'] c(2) Cons Some show ?thesis
        by (simp add: map_of_set_entry)
    qed
  qed
qed auto

lemma writeFile_findComponentFiles:
  "writeFile root p data = Inr root' \<Longrightarrow> p = [] \<or> \<not> component_name (last p) \<Longrightarrow>
     findComponentFiles root' d = findComponentFiles root d"
  unfolding findComponentFiles_def by (rule writeFile_findComponentFiles_aux)

subsection \<open>The loop of main\<close>

lemma fs_console_log [simp]: "fs (console_log w line) = fs w"
  by (simp add: console_log_def)

lemma unsearchable_console_log [simp]: "unsearchable (console_log w line) = unsearchable w"
  by (simp add: console_log_def)

text \<open>What the three calls answer depends on the tree and on the unsearchable directories.\<close>

lemma reachable_cong:
  "unsearchable w' = unsearchable w \<Longrightarrow> reachable w' p = reachable w p"
  by (simp add: reachable_def)

lemma fs_access_cong:
  "fs w' = fs w \<Longrightarrow> unsearchable w' = unsearchable w \<Longrightarrow> fs_access w' p = fs_access w p"
  using reachable_cong [of w' w p] by (simp add: fs_access_def)

lemma fs_readFile_cong:
  "fs w' = fs w \<Longrightarrow> unsearchable w' = unsearchable w \<Longrightarrow> fs_readFile w' p = fs_readFile w p"
  using reachable_cong [of w' w p] by (simp add: fs_readFile_def)

lemma fs_writeFile_cong:
  "fs w' = fs w \<Longrightarrow> unsearchable w' = unsearchable w \<Longrightarrow>
     fs_writeFile w' p data = fs_writeFile w p data"
  using reachable_cong [of w' w p] by (simp add: fs_writeFile_def)

lemma fs_writeFile_Inr:
  "fs_writeFile w p data = Inr n \<Longrightarrow> reachable w p \<and> writeFile (fs w) p data = Inr n"
  by (simp add: fs_writeFile_def split: if_splits)

lemma fs_writeFile_access:
  assumes "fs_writeFile w p data = Inr n"
  shows "reachable w p \<and> lookup n p \<noteq> None"
proof -
  from fs_writeFile_Inr [OF assms] have "reachable w p" and "writeFile (fs w) p data = Inr n"
    by simp_all
  from this(1) writeFile_exists [OF this(2)] show ?thesis by simp
qed

text \<open>The five ways through one turn of the loop.\<close>

lemma generate_skip:
  "fs_access w (getTestPath file) \<Longrightarrow> \<not> force opts \<Longrightarrow>
     generate opts cwd (file # rest) w = generate opts cwd rest w"
  by (auto simp: Let_def)

lemma generate_read_error:
  "\<not> (fs_access w (getTestPath file) \<and> \<not> force opts) \<Longrightarrow>
   fs_readFile w file = Inl e \<Longrightarrow>
     generate opts cwd (file # rest) w = (w, Some e)"
  by (auto simp: Let_def)

lemma generate_dry_run:
  "\<not> (fs_access w (getTestPath file) \<and> \<not> force opts) \<Longrightarrow>
   fs_readFile w file = Inr source \<Longrightarrow> dryRun opts \<Longrightarrow>
     generate opts cwd (file # rest) w =
       generate opts cwd rest
         (console_log w (''[DRY RUN] Would create: '' @ path_string (getTestPath file)))"
  by (auto simp: Let_def)

lemma generate_write_error:
  "\<not> (fs_access w (getTestPath file) \<and> \<not> force opts) \<Longrightarrow>
   fs_readFile w file = Inr source \<Longrightarrow> \<not> dryRun opts \<Longrightarrow>
   fs_writeFile w (getTestPath file)
     (createTestTemplate file (inferExportInfo file source)) = Inl e \<Longrightarrow>
     generate opts cwd (file # rest) w = (w, Some e)"
  by (auto simp: Let_def)

lemma generate_write:
  "\<not> (fs_access w (getTestPath file) \<and> \<not> force opts) \<Longrightarrow>
   fs_readFile w file = Inr source \<Longrightarrow> \<not> dryRun opts \<Longrightarrow>
   fs_writeFile w (getTestPath file)
     (createTestTemplate file (inferExportInfo file source)) = Inr fs' \<Longrightarrow>
     generate opts cwd (file # rest) w =
       generate opts cwd rest
         (console_log (w\<lparr>fs := fs'\<rparr>)
            ((if fs_access w (getTestPath file) then ''Overwrote'' else ''Created'') @ '': '' @
              path_relative cwd (getTestPath file)))"
  by (auto simp: Let_def)

lemma generate_cases [case_names skipped read_failed dry write_failed written]:
  assumes "fs_access w (getTestPath file) \<Longrightarrow> \<not> force opts \<Longrightarrow> P"
    and "\<And>e. \<not> (fs_access w (getTestPath file) \<and> \<not> force opts) \<Longrightarrow>
           fs_readFile w file = Inl e \<Longrightarrow> P"
    and "\<And>source. \<not> (fs_access w (getTestPath file) \<and> \<not> force opts) \<Longrightarrow>
           fs_readFile w file = Inr source \<Longrightarrow> dryRun opts \<Longrightarrow> P"
    and "\<And>source e. \<not> (fs_access w (getTestPath file) \<and> \<not> force opts) \<Longrightarrow>
           fs_readFile w file = Inr source \<Longrightarrow> \<not> dryRun opts \<Longrightarrow>
           fs_writeFile w (getTestPath file)
             (createTestTemplate file (inferExportInfo file source)) = Inl e \<Longrightarrow> P"
    and "\<And>source fs'. \<not> (fs_access w (getTestPath file) \<and> \<not> force opts) \<Longrightarrow>
           fs_readFile w file = Inr source \<Longrightarrow> \<not> dryRun opts \<Longrightarrow>
           fs_writeFile w (getTestPath file)
             (createTestTemplate file (inferExportInfo file source)) = Inr fs' \<Longrightarrow> P"
  shows P
proof (cases "fs_access w (getTestPath file) \<and> \<not> force opts")
  case True
  with assms(1) show ?thesis by simp
next
  case False
  show ?thesis
  proof (cases "fs_readFile w file")
    case (Inl e)
    with False show ?thesis by (rule assms(2))
  next
    case (Inr source)
    show ?thesis
    proof (cases "dryRun opts")
      case True
      with False Inr show ?thesis by (rule assms(3))
    next
      case dry: False
      show ?thesis
      proof (cases "fs_writeFile w (getTestPath file)
             (createTestTemplate file (inferExportInfo file source))")
        case (Inl e)
        with False Inr dry show ?thesis by (rule assms(4))
      next
        case Inr': (Inr fs')
        with False Inr dry show ?thesis by (rule assms(5))
      qed
    qed
  qed
qed

text \<open>
  The same, by what a turn does to the file system: it stops the loop, or goes on with the
  same files, or goes on after one write at a path that can be followed.
\<close>

lemma generate_Cons_cases [case_names stop same written]:
  assumes "\<And>e. generate opts cwd (f # rest) w = (w, Some e) \<Longrightarrow> P"
    and "\<And>w1. generate opts cwd (f # rest) w = generate opts cwd rest w1 \<Longrightarrow>
           fs w1 = fs w \<Longrightarrow> unsearchable w1 = unsearchable w \<Longrightarrow> P"
    and "\<And>w1 source. generate opts cwd (f # rest) w = generate opts cwd rest w1 \<Longrightarrow>
           writeFile (fs w) (getTestPath f)
             (createTestTemplate f (inferExportInfo f source)) = Inr (fs w1) \<Longrightarrow>
           fs_readFile w f = Inr source \<Longrightarrow> \<not> dryRun opts \<Longrightarrow>
           \<not> (fs_access w (getTestPath f) \<and> \<not> force opts) \<Longrightarrow>
           reachable w (getTestPath f) \<Longrightarrow> unsearchable w1 = unsearchable w \<Longrightarrow> P"
  shows P
proof (cases w f opts rule: generate_cases)
  case skipped
  show ?thesis
    by (rule assms(2) [of w]) (simp_all only: generate_skip [OF skipped])
next
  case (read_failed e)
  show ?thesis
    by (rule assms(1) [of e]) (simp only: generate_read_error [OF read_failed])
next
  case (dry source)
  show ?thesis
    by (rule assms(2)
        [of "console_log w (''[DRY RUN] Would create: '' @ path_string (getTestPath f))"])
      (simp_all only: generate_dry_run [OF dry] fs_console_log unsearchable_console_log)
next
  case (write_failed source e)
  show ?thesis
    by (rule assms(1) [of e]) (simp only: generate_write_error [OF write_failed])
next
  case (written source fs')
  let ?w1 = "console_log (w\<lparr>fs := fs'\<rparr>)
            ((if fs_access w (getTestPath f) then ''Overwrote'' else ''Created'') @ '': '' @
              path_relative cwd (getTestPath f))"
  from fs_writeFile_Inr [OF written(4)] have
    wr: "reachable w (getTestPath f)"
      "writeFile (fs w) (getTestPath f) (createTestTemplate f (inferExportInfo f source)) =
         Inr fs'"
    by simp_all
  show ?thesis
  proof (rule assms(3) [of ?w1 source])
    show "generate opts cwd (f # rest) w = generate opts cwd rest ?w1"
      by (rule generate_write [OF written])
    show "writeFile (fs w) (getTestPath f) (createTestTemplate f (inferExportInfo f source)) =
        Inr (fs ?w1)"
      using wr(2) by simp
    show "unsearchable ?w1 = unsearchable w" by simp
  qed (use written wr in simp_all)
qed

text \<open>The loop leaves the unsearchable directories as they are.\<close>

lemma generate_unsearchable:
  "unsearchable (fst (generate opts cwd files w)) = unsearchable w"
proof (induction files arbitrary: w)
  case Nil
  show ?case by simp
next
  case (Cons f rest)
  show ?case
  proof (cases opts cwd f rest w rule: generate_Cons_cases)
    case (stop e)
    then show ?thesis by simp
  next
    case (same w1)
    with Cons.IH [of w1] show ?thesis by simp
  next
    case (written w1 source)
    from Cons.IH [of w1] written(1,7) show ?thesis by simp
  qed
qed

text \<open>A dry run writes nothing.\<close>

lemma generate_dry_run_fs:
  "dryRun opts \<Longrightarrow> fs (fst (generate opts cwd files w)) = fs w"
proof (induction files arbitrary: w)
  case Nil
  show ?case by simp
next
  case (Cons f rest)
  show ?case
  proof (cases opts cwd f rest w rule: generate_Cons_cases)
    case (stop e)
    then show ?thesis by simp
  next
    case (same w1)
    with Cons.IH [OF Cons.prems, of w1] show ?thesis by simp
  next
    case (written w1 source)
    with Cons.prems show ?thesis by simp
  qed
qed

text \<open>The loop removes nothing.\<close>

lemma generate_exists:
  "lookup (fs w) q \<noteq> None \<Longrightarrow> lookup (fs (fst (generate opts cwd files w))) q \<noteq> None"
proof (induction files arbitrary: w)
  case Nil
  then show ?case by simp
next
  case (Cons f rest)
  show ?case
  proof (cases opts cwd f rest w rule: generate_Cons_cases)
    case (stop e)
    with Cons.prems show ?thesis by simp
  next
    case (same w1)
    with Cons.IH [of w1] Cons.prems show ?thesis by simp
  next
    case (written w1 source)
    from written(2) Cons.prems have "lookup (fs w1) q \<noteq> None"
      by (rule writeFile_access)
    with Cons.IH [of w1] written(1) show ?thesis by simp
  qed
qed

lemma generate_fs_access:
  assumes "fs_access w q"
  shows "fs_access (fst (generate opts cwd files w)) q"
proof -
  from assms have "lookup (fs w) q \<noteq> None" "reachable w q"
    by (simp_all add: fs_access_def)
  from generate_exists [OF this(1)] this(2)
    reachable_cong [OF generate_unsearchable, of opts cwd files w q]
  show ?thesis by (simp add: fs_access_def)
qed

text \<open>The loop writes at the test paths of its files only.\<close>

lemma generate_other:
  "q \<notin> getTestPath ` set files \<Longrightarrow>
     contents (fs (fst (generate opts cwd files w))) q = contents (fs w) q"
proof (induction files arbitrary: w)
  case Nil
  show ?case by simp
next
  case (Cons f rest)
  from Cons.prems have q: "q \<noteq> getTestPath f" "q \<notin> getTestPath ` set rest"
    by auto
  note IH = Cons.IH [OF q(2)]
  show ?case
  proof (cases opts cwd f rest w rule: generate_Cons_cases)
    case (stop e)
    then show ?thesis by simp
  next
    case (same w1)
    with IH [of w1] show ?thesis by simp
  next
    case (written w1 source)
    from written(2) q(1) have "contents (fs w1) q = contents (fs w) q"
      by (rule writeFile_other)
    with IH [of w1] written(1) show ?thesis by simp
  qed
qed

text \<open>Without \<^verbatim>\<open>--force\<close> the loop leaves every plain file that exists as it is.\<close>

lemma generate_keeps:
  "\<not> force opts \<Longrightarrow> contents (fs w) q = Some s \<Longrightarrow>
     contents (fs (fst (generate opts cwd files w))) q = Some s"
proof (induction files arbitrary: w)
  case Nil
  then show ?case by simp
next
  case (Cons f rest)
  note IH = Cons.IH [OF Cons.prems(1)]
  show ?case
  proof (cases opts cwd f rest w rule: generate_Cons_cases)
    case (stop e)
    with Cons.prems show ?thesis by simp
  next
    case (same w1)
    with IH [of w1] Cons.prems show ?thesis by simp
  next
    case (written w1 source)
    from written(5,6) Cons.prems(1) have "lookup (fs w) (getTestPath f) = None"
      by (simp add: fs_access_def)
    with Cons.prems(2) have "q \<noteq> getTestPath f"
      by (auto simp: contents_def)
    with written(2) have "contents (fs w1) q = contents (fs w) q"
      by (rule writeFile_other)
    with Cons.prems(2) have "contents (fs w1) q = Some s" by simp
    with IH [of w1] written(1) show ?thesis by simp
  qed
qed

text \<open>The loop does not change what the walk finds.\<close>

lemma generate_findComponentFiles:
  "findComponentFiles (fs (fst (generate opts cwd files w))) d = findComponentFiles (fs w) d"
proof (induction files arbitrary: w)
  case Nil
  show ?case by simp
next
  case (Cons f rest)
  show ?case
  proof (cases opts cwd f rest w rule: generate_Cons_cases)
    case (stop e)
    then show ?thesis by simp
  next
    case (same w1)
    with Cons.IH [of w1] show ?thesis by simp
  next
    case (written w1 source)
    from getTestPath_not_component [of f]
    have "getTestPath f = [] \<or> \<not> component_name (last (getTestPath f))" by simp
    with written(2) have "findComponentFiles (fs w1) d = findComponentFiles (fs w) d"
      by (rule writeFile_findComponentFiles)
    with Cons.IH [of w1] written(1) show ?thesis by simp
  qed
qed

text \<open>
  Run again on its own result without \<^verbatim>\<open>--force\<close>, the loop writes nothing: a file that was
  skipped or written has its test file, and a file at which the loop stopped stops it again.
\<close>

lemma generate_idempotent:
  assumes "\<not> force opts"
  shows "fs w2 = fs (fst (generate opts cwd files w)) \<Longrightarrow> unsearchable w2 = unsearchable w \<Longrightarrow>
           fs (fst (generate opts cwd files w2)) = fs w2"
proof (induction files arbitrary: w w2)
  case Nil
  show ?case by simp
next
  case (Cons f rest)
  note same = Cons.prems(2)
  show ?case
  proof (cases w f opts rule: generate_cases)
    case skipped
    from Cons.prems(1) have w2: "fs w2 = fs (fst (generate opts cwd rest w))"
      by (simp only: generate_skip [OF skipped])
    from same have u: "unsearchable w2 = unsearchable (fst (generate opts cwd rest w))"
      by (simp only: generate_unsearchable)
    from skipped(1) have "fs_access (fst (generate opts cwd rest w)) (getTestPath f)"
      by (rule generate_fs_access)
    then have "fs_access w2 (getTestPath f)"
      by (simp only: fs_access_cong [OF w2 u])
    then have "generate opts cwd (f # rest) w2 = generate opts cwd rest w2"
      using assms by (rule generate_skip)
    with Cons.IH [OF w2 same] show ?thesis by simp
  next
    case (read_failed e)
    from Cons.prems(1) have w2: "fs w2 = fs w"
      by (simp only: generate_read_error [OF read_failed] fst_conv)
    from read_failed have "\<not> (fs_access w2 (getTestPath f) \<and> \<not> force opts)"
      and "fs_readFile w2 f = Inl e"
      by (simp_all add: fs_access_cong [OF w2 same] fs_readFile_cong [OF w2 same])
    then have "generate opts cwd (f # rest) w2 = (w2, Some e)"
      by (rule generate_read_error)
    then show ?thesis by simp
  next
    case (dry source)
    from dry(3) show ?thesis
      by (rule generate_dry_run_fs)
  next
    case (write_failed source e)
    from Cons.prems(1) have w2: "fs w2 = fs w"
      by (simp only: generate_write_error [OF write_failed] fst_conv)
    from write_failed have "\<not> (fs_access w2 (getTestPath f) \<and> \<not> force opts)"
      and "fs_readFile w2 f = Inr source" and "\<not> dryRun opts"
      and "fs_writeFile w2 (getTestPath f)
             (createTestTemplate f (inferExportInfo f source)) = Inl e"
      by (simp_all add: fs_access_cong [OF w2 same] fs_readFile_cong [OF w2 same]
          fs_writeFile_cong [OF w2 same])
    then have "generate opts cwd (f # rest) w2 = (w2, Some e)"
      by (rule generate_write_error)
    then show ?thesis by simp
  next
    case (written source fs')
    let ?w1 = "console_log (w\<lparr>fs := fs'\<rparr>)
            ((if fs_access w (getTestPath f) then ''Overwrote'' else ''Created'') @ '': '' @
              path_relative cwd (getTestPath f))"
    have u1: "unsearchable ?w1 = unsearchable w" by simp
    from Cons.prems(1) have w2: "fs w2 = fs (fst (generate opts cwd rest ?w1))"
      by (simp only: generate_write [OF written])
    from same have same1: "unsearchable w2 = unsearchable ?w1"
      by (simp only: u1)
    then have u: "unsearchable w2 = unsearchable (fst (generate opts cwd rest ?w1))"
      by (simp only: generate_unsearchable)
    have "fs_access ?w1 (getTestPath f)"
      using fs_writeFile_access [OF written(4)] by (simp add: fs_access_def reachable_def)
    then have "fs_access (fst (generate opts cwd rest ?w1)) (getTestPath f)"
      by (rule generate_fs_access)
    then have "fs_access w2 (getTestPath f)"
      by (simp only: fs_access_cong [OF w2 u])
    then have "generate opts cwd (f # rest) w2 = generate opts cwd rest w2"
      using assms by (rule generate_skip)
    with Cons.IH [OF w2 same1] show ?thesis by simp
  qed
qed

text \<open>After a run that was not a dry run and did not stop, every file has its test file.\<close>

lemma generate_all_tested:
  "\<not> dryRun opts \<Longrightarrow> snd (generate opts cwd files w) = None \<Longrightarrow> f \<in> set files \<Longrightarrow>
     fs_access (fst (generate opts cwd files w)) (getTestPath f)"
proof (induction files arbitrary: w)
  case Nil
  then show ?case by simp
next
  case (Cons g rest)
  show ?case
  proof (cases w g opts rule: generate_cases)
    case skipped
    note step = generate_skip [OF skipped, of cwd rest]
    show ?thesis
    proof (cases "f = g")
      case True
      from skipped(1) have "fs_access (fst (generate opts cwd rest w)) (getTestPath g)"
        by (rule generate_fs_access)
      with True step show ?thesis by simp
    next
      case False
      with Cons.prems(3) have "f \<in> set rest" by simp
      with Cons.IH [of w] Cons.prems(1,2) step show ?thesis by simp
    qed
  next
    case (read_failed e)
    from Cons.prems(2) show ?thesis
      by (simp only: generate_read_error [OF read_failed]) simp
  next
    case (dry source)
    with Cons.prems(1) show ?thesis by simp
  next
    case (write_failed source e)
    from Cons.prems(2) show ?thesis
      by (simp only: generate_write_error [OF write_failed]) simp
  next
    case (written source fs')
    let ?w1 = "console_log (w\<lparr>fs := fs'\<rparr>)
            ((if fs_access w (getTestPath g) then ''Overwrote'' else ''Created'') @ '': '' @
              path_relative cwd (getTestPath g))"
    note step = generate_write [OF written, of cwd rest]
    show ?thesis
    proof (cases "f = g")
      case True
      have "fs_access ?w1 (getTestPath g)"
        using fs_writeFile_access [OF written(4)] by (simp add: fs_access_def reachable_def)
      then have "fs_access (fst (generate opts cwd rest ?w1)) (getTestPath g)"
        by (rule generate_fs_access)
      with True step show ?thesis by simp
    next
      case False
      with Cons.prems(3) have "f \<in> set rest" by simp
      with Cons.IH [of ?w1] Cons.prems(1,2) step show ?thesis by simp
    qed
  qed
qed

text \<open>
  A test path lies in the directory of its source file, so the one can be followed when the
  other can. Where it cannot, the loop stops at the read, whatever the flags.
\<close>

lemma reachable_getTestPath:
  assumes "f \<noteq> []"
  shows "reachable w (getTestPath f) = reachable w f"
proof -
  have "take (length d) (getTestPath f) = take (length d) f"
    if "length d < length f" for d :: path
    using that by (simp add: getTestPath_eq take_butlast)
  moreover from assms have "length (getTestPath f) = length f"
    by (simp add: getTestPath_eq)
  ultimately show ?thesis
    by (auto simp: reachable_def)
qed

lemma generate_unreachable:
  assumes "f \<noteq> []" and "\<not> reachable w (getTestPath f)"
  shows "generate opts cwd (f # rest) w = (w, Some EACCES)"
proof -
  from assms have "\<not> reachable w f"
    by (simp add: reachable_getTestPath)
  then have "fs_readFile w f = Inl EACCES"
    by (simp add: fs_readFile_def)
  moreover from assms(2) have "\<not> (fs_access w (getTestPath f) \<and> \<not> force opts)"
    by (simp add: fs_access_def)
  ultimately show ?thesis
    by (rule generate_read_error [rotated])
qed

subsection \<open>A forced run\<close>

lemma discovered_component:
  assumes "f \<in> set (findComponentFiles root d)"
  shows "f \<noteq> [] \<and> component_name (last f)"
proof (cases "lookup root d")
  case None
  with assms show ?thesis by (simp add: findComponentFiles_def)
next
  case (Some n)
  with assms obtain rel where rel: "f = d @ rel" "visited n rel" "component_name (last rel)"
    by (auto simp: findComponentFiles_iff)
  from rel(2) have "rel \<noteq> []" by (rule visited_nonempty)
  with rel show ?thesis by simp
qed

text \<open>
  With \<^verbatim>\<open>--force\<close> and without \<^verbatim>\<open>--dry-run\<close>, a loop that did not stop has read every file and
  left the generated text at its test path.
\<close>

lemma generate_forced:
  assumes "force opts" and "\<not> dryRun opts"
  shows "\<forall>g \<in> set files. g \<noteq> [] \<and> component_name (last g) \<Longrightarrow>
         snd (generate opts cwd files w) = None \<Longrightarrow> f \<in> set files \<Longrightarrow>
           \<exists>source. fs_readFile w f = Inr source \<and>
             contents (fs (fst (generate opts cwd files w))) (getTestPath f) =
               Some (createTestTemplate f (inferExportInfo f source))"
proof (induction files arbitrary: w)
  case Nil
  then show ?case by simp
next
  case (Cons g rest)
  from Cons.prems(1) have comp: "\<forall>h \<in> set rest. h \<noteq> [] \<and> component_name (last h)"
    and g: "g \<noteq> []" "component_name (last g)"
    by auto
  show ?case
  proof (cases w g opts rule: generate_cases)
    case skipped
    with assms(1) show ?thesis by simp
  next
    case (read_failed e)
    from Cons.prems(2) show ?thesis
      by (simp only: generate_read_error [OF read_failed]) simp
  next
    case (dry source)
    with assms(2) show ?thesis by simp
  next
    case (write_failed source e)
    from Cons.prems(2) show ?thesis
      by (simp only: generate_write_error [OF write_failed]) simp
  next
    case (written source fs')
    let ?w1 = "console_log (w\<lparr>fs := fs'\<rparr>)
            ((if fs_access w (getTestPath g) then ''Overwrote'' else ''Created'') @ '': '' @
              path_relative cwd (getTestPath g))"
    note step = generate_write [OF written, of cwd rest]
    from fs_writeFile_Inr [OF written(4)] have
      wr: "writeFile (fs w) (getTestPath g) (createTestTemplate g (inferExportInfo g source)) =
        Inr fs'"
      by simp
    have fs1: "fs ?w1 = fs'" by simp
    from Cons.prems(2) step have ok: "snd (generate opts cwd rest ?w1) = None" by simp
    have read: "fs_readFile ?w1 h = Inr s \<longleftrightarrow> fs_readFile w h = Inr s"
      if "h \<noteq> []" "component_name (last h)" for h s
    proof -
      have "reachable ?w1 h = reachable w h"
        by (simp add: reachable_def)
      with writeFile_readFile [OF wr component_not_test_path [OF that], of s]
      show ?thesis by (simp add: fs_readFile_def)
    qed
    have in_rest: ?thesis if "f \<in> set rest"
    proof -
      from Cons.IH [OF comp ok that] obtain source' where
        s: "fs_readFile ?w1 f = Inr source'"
          "contents (fs (fst (generate opts cwd rest ?w1))) (getTestPath f) =
             Some (createTestTemplate f (inferExportInfo f source'))"
        by blast
      from comp that have "f \<noteq> []" "component_name (last f)" by auto
      from read [OF this] s(1) have "fs_readFile w f = Inr source'" by simp
      with s(2) step show ?thesis by auto
    qed
    show ?thesis
    proof (cases "f \<in> set rest")
      case True
      then show ?thesis by (rule in_rest)
    next
      case False
      with Cons.prems(3) have fg: "f = g" by simp
      have "getTestPath g \<notin> getTestPath ` set rest"
      proof
        assume "getTestPath g \<in> getTestPath ` set rest"
        then obtain h where h: "h \<in> set rest" "getTestPath g = getTestPath h" by auto
        with comp have "h \<noteq> []" "component_name (last h)" by auto
        from getTestPath_inj [OF g this h(2)] h(1) False fg show False by simp
      qed
      then have "contents (fs (fst (generate opts cwd rest ?w1))) (getTestPath g) =
          contents (fs ?w1) (getTestPath g)"
        by (rule generate_other)
      also from wr have "\<dots> = Some (createTestTemplate g (inferExportInfo g source))"
        by (simp add: writeFile_contents)
      finally show ?thesis
        using fg step written(2) by auto
    qed
  qed
qed

subsection \<open>Whole runs\<close>

text \<open>What a run does to the file system is what its loop does, also when no file is found.\<close>

lemma main_generate:
  \<open>\<exists>w1. fs w1 = fs w \<and> unsearchable w1 = unsearchable w
     \<and> fs (fst (main argv cwd w)) =
         fs (fst (generate (parseArgs argv) cwd
           (findComponentFiles (fs w) (path_resolve cwd (rootDir (parseArgs argv)))) w1))
     \<and> unsearchable (fst (main argv cwd w)) = unsearchable w
     \<and> (snd (main argv cwd w) = Completed \<longrightarrow>
         snd (generate (parseArgs argv) cwd
           (findComponentFiles (fs w) (path_resolve cwd (rootDir (parseArgs argv)))) w1) = None)\<close>
proof -
  let ?root = "path_resolve cwd (rootDir (parseArgs argv))"
  let ?w1 = \<open>console_log w (''react-testgen: scanning "'' @ path_string ?root @ ''"'')\<close>
  let ?files = "findComponentFiles (fs w) ?root"
  have u: "unsearchable (fst (generate (parseArgs argv) cwd ?files ?w1)) = unsearchable w"
    by (simp add: generate_unsearchable)
  have "fs (fst (main argv cwd w)) = fs (fst (generate (parseArgs argv) cwd ?files ?w1))
     \<and> unsearchable (fst (main argv cwd w)) = unsearchable w
     \<and> (snd (main argv cwd w) = Completed \<longrightarrow>
         snd (generate (parseArgs argv) cwd ?files ?w1) = None)"
  proof (cases "?files = []")
    case True
    then show ?thesis by (simp add: main_def Let_def)
  next
    case False
    with u show ?thesis
      by (cases "generate (parseArgs argv) cwd ?files ?w1")
        (auto simp: main_def Let_def split: option.splits)
  qed
  moreover have "fs ?w1 = fs w" "unsearchable ?w1 = unsearchable w" by simp_all
  ultimately show ?thesis by blast
qed

text \<open>
  Claim C4 (a component file whose test file exists is skipped without \<^verbatim>\<open>--force\<close>) does not
  hold where the test file exists and \<^verbatim>\<open>fs.access\<close> is refused. In \<open>sealed_world\<close> the walk finds
  \<^verbatim>\<open>/proj/src/locked/Card.tsx\<close> and then \<^verbatim>\<open>/proj/src/Zed.tsx\<close>. The test file of the first exists,
  and \<^verbatim>\<open>--force\<close> is not given. The loop does not skip the first file and go on to the
  second, which it could handle: it stops at the first with \<^verbatim>\<open>EACCES\<close>, the run fails, and the
  second file gets no test file.
\<close>

theorem write_policy_counterexample:
  "findComponentFiles (fs sealed_world) (path_resolve [''proj''] (rootDir (parseArgs [''src'']))) =
     [[''proj'', ''src'', ''locked'', ''Card.tsx''], [''proj'', ''src'', ''Zed.tsx'']]
   \<and> \<not> force (parseArgs [''src''])
   \<and> contents (fs sealed_world) (getTestPath [''proj'', ''src'', ''locked'', ''Card.tsx'']) =
       Some ''// written by hand''
   \<and> generate (parseArgs [''src'']) [''proj'']
        [[''proj'', ''src'', ''locked'', ''Card.tsx''], [''proj'', ''src'', ''Zed.tsx'']]
        sealed_world = (sealed_world, Some EACCES)
   \<and> snd (generate (parseArgs [''src'']) [''proj''] [[''proj'', ''src'', ''Zed.tsx'']]
        sealed_world) = None
   \<and> generate (parseArgs [''src'']) [''proj'']
        [[''proj'', ''src'', ''locked'', ''Card.tsx''], [''proj'', ''src'', ''Zed.tsx'']]
        sealed_world \<noteq>
       generate (parseArgs [''src'']) [''proj''] [[''proj'', ''src'', ''Zed.tsx'']] sealed_world
   \<and> snd (main [''src''] [''proj''] sealed_world) = Failed EACCES
   \<and> contents (fs (fst (main [''src''] [''proj''] sealed_world)))
        [''proj'', ''src'', ''Zed.test.tsx''] = None"
proof -
  have found: "findComponentFiles (fs sealed_world)
      (path_resolve [''proj''] (rootDir (parseArgs [''src'']))) =
     [[''proj'', ''src'', ''locked'', ''Card.tsx''], [''proj'', ''src'', ''Zed.tsx'']]"
    by code_simp
  have o: "\<not> force (parseArgs [''src''])"
    by code_simp
  have old: "contents (fs sealed_world)
      (getTestPath [''proj'', ''src'', ''locked'', ''Card.tsx'']) = Some ''// written by hand''"
    by code_simp
  have stop: "generate (parseArgs [''src'']) [''proj'']
        [[''proj'', ''src'', ''locked'', ''Card.tsx''], [''proj'', ''src'', ''Zed.tsx'']]
        sealed_world = (sealed_world, Some EACCES)"
    by code_simp
  have next_ok: "snd (generate (parseArgs [''src'']) [''proj''] [[''proj'', ''src'', ''Zed.tsx'']]
        sealed_world) = None"
    by code_simp
  from stop next_ok have differ: "generate (parseArgs [''src'']) [''proj'']
        [[''proj'', ''src'', ''locked'', ''Card.tsx''], [''proj'', ''src'', ''Zed.tsx'']]
        sealed_world \<noteq>
       generate (parseArgs [''src'']) [''proj''] [[''proj'', ''src'', ''Zed.tsx'']] sealed_world"
    by (metis snd_conv option.distinct(1))
  have failed: "snd (main [''src''] [''proj''] sealed_world) = Failed EACCES"
    by code_simp
  have none: "contents (fs (fst (main [''src''] [''proj''] sealed_world)))
        [''proj'', ''src'', ''Zed.test.tsx''] = None"
    by code_simp
  from found o old stop next_ok differ failed none show ?thesis
    by (intro conjI)
qed

text \<open>
  Claim C4, amended (a component file whose test path is found by \<^verbatim>\<open>fs.access\<close>, which is
  that it exists and can be reached through searchable directories, is skipped without
  \<^verbatim>\<open>--force\<close>, with no inference, no rendering and no write; without \<^verbatim>\<open>--force\<close> every existing
  file stays as it is; with \<^verbatim>\<open>--force\<close> the test file gets the newly generated text; with
  \<^verbatim>\<open>--dry-run\<close> the run creates and changes no file). Without \<^verbatim>\<open>--force\<close>: a turn of the loop
  for a file whose test path \<^verbatim>\<open>fs.access\<close> finds is no turn at all, and after the run every
  plain file that existed has the text it had, whatever \<^verbatim>\<open>fs.access\<close> answered. With
  \<^verbatim>\<open>--force\<close> and without \<^verbatim>\<open>--dry-run\<close>: after a run that completed, the test path of every
  file found holds the template for that file. With \<^verbatim>\<open>--dry-run\<close>: the file system after the
  run is the one before. And with any flags: at a file whose test path cannot be reached
  the loop stops with \<^verbatim>\<open>EACCES\<close> and the state it had.
\<close>

theorem write_policy:
  "(\<not> force (parseArgs argv) \<longrightarrow>
      (\<forall>f rest w0. fs_access w0 (getTestPath f) \<longrightarrow>
         generate (parseArgs argv) cwd (f # rest) w0 = generate (parseArgs argv) cwd rest w0)
      \<and> (\<forall>p s. contents (fs w) p = Some s \<longrightarrow>
            contents (fs (fst (main argv cwd w))) p = Some s))
   \<and> (force (parseArgs argv) \<and> \<not> dryRun (parseArgs argv)
        \<and> snd (main argv cwd w) = Completed \<longrightarrow>
      (\<forall>f \<in> set (findComponentFiles (fs w) (path_resolve cwd (rootDir (parseArgs argv)))).
         \<exists>source. fs_readFile w f = Inr source \<and>
           contents (fs (fst (main argv cwd w))) (getTestPath f) =
             Some (createTestTemplate f (inferExportInfo f source))))
   \<and> (dryRun (parseArgs argv) \<longrightarrow> fs (fst (main argv cwd w)) = fs w)
   \<and> (\<forall>f rest w0. f \<noteq> [] \<and> \<not> reachable w0 (getTestPath f) \<longrightarrow>
        generate (parseArgs argv) cwd (f # rest) w0 = (w0, Some EACCES))"
proof -
  let ?opts = "parseArgs argv"
  let ?files = "findComponentFiles (fs w) (path_resolve cwd (rootDir ?opts))"
  from main_generate [of w argv cwd] obtain w1 where
    w1: "fs w1 = fs w" "unsearchable w1 = unsearchable w"
      "fs (fst (main argv cwd w)) = fs (fst (generate ?opts cwd ?files w1))"
      "snd (main argv cwd w) = Completed \<longrightarrow> snd (generate ?opts cwd ?files w1) = None"
    by blast
  have skip: "generate ?opts cwd (f # rest) w0 = generate ?opts cwd rest w0"
    if "\<not> force ?opts" "fs_access w0 (getTestPath f)" for f rest w0
    using that(2,1) by (rule generate_skip)
  have keep: "contents (fs (fst (main argv cwd w))) p = Some s"
    if "\<not> force ?opts" "contents (fs w) p = Some s" for p s
    using generate_keeps [OF that(1), of w1 p s cwd ?files] that(2) w1(1,3) by simp
  have forced: "\<exists>source. fs_readFile w f = Inr source \<and>
           contents (fs (fst (main argv cwd w))) (getTestPath f) =
             Some (createTestTemplate f (inferExportInfo f source))"
    if "force ?opts" "\<not> dryRun ?opts" "snd (main argv cwd w) = Completed" "f \<in> set ?files" for f
  proof -
    have "\<forall>g \<in> set ?files. g \<noteq> [] \<and> component_name (last g)"
      using discovered_component by blast
    from generate_forced [OF that(1,2) this _ that(4), of cwd w1] that(3) w1(3,4)
    obtain source where "fs_readFile w1 f = Inr source"
      "contents (fs (fst (main argv cwd w))) (getTestPath f) =
         Some (createTestTemplate f (inferExportInfo f source))"
      by auto
    then show ?thesis
      by (auto simp: fs_readFile_cong [OF w1(1,2)])
  qed
  have dry: "fs (fst (main argv cwd w)) = fs w" if "dryRun ?opts"
    using generate_dry_run_fs [OF that, of cwd ?files w1] w1(1,3) by simp
  have stop: "generate ?opts cwd (f # rest) w0 = (w0, Some EACCES)"
    if "f \<noteq> []" "\<not> reachable w0 (getTestPath f)" for f rest w0
    using that by (rule generate_unreachable)
  from skip keep forced dry stop show ?thesis by blast
qed

theorem write_policy_witness:
  "\<not> force (parseArgs [''src''])
   \<and> fs_access sample_world (getTestPath [''proj'', ''src'', ''Card.tsx''])
   \<and> generate (parseArgs [''src'']) [''proj''] [[''proj'', ''src'', ''Card.tsx'']] sample_world =
       (sample_world, None)
   \<and> contents (fs sample_world) [''proj'', ''src'', ''Card.test.tsx''] = Some ''// written by hand''
   \<and> contents (fs (fst (main [''src''] [''proj''] sample_world)))
        [''proj'', ''src'', ''Card.test.tsx''] = Some ''// written by hand''
   \<and> force (parseArgs [''src'', ''--force''])
   \<and> \<not> dryRun (parseArgs [''src'', ''--force''])
   \<and> snd (main [''src'', ''--force''] [''proj''] sample_world) = Completed
   \<and> [''proj'', ''src'', ''Card.tsx''] \<in>
        set (findComponentFiles (fs sample_world)
          (path_resolve [''proj''] (rootDir (parseArgs [''src'', ''--force'']))))
   \<and> contents (fs (fst (main [''src'', ''--force''] [''proj''] sample_world)))
        [''proj'', ''src'', ''Card.test.tsx''] =
       Some (createTestTemplate [''proj'', ''src'', ''Card.tsx'']
         (inferExportInfo [''proj'', ''src'', ''Card.tsx''] ''export const Card = () => null;''))
   \<and> dryRun (parseArgs [''src'', ''--force'', ''--dry-run''])
   \<and> fs (fst (main [''src'', ''--force'', ''--dry-run''] [''proj''] sample_world)) =
       fs sample_world
   \<and> [''proj'', ''src'', ''locked'', ''Card.tsx''] \<noteq> []
   \<and> \<not> reachable sealed_world (getTestPath [''proj'', ''src'', ''locked'', ''Card.tsx''])
   \<and> generate (parseArgs [''src'', ''--force'']) [''proj'']
        [[''proj'', ''src'', ''locked'', ''Card.tsx'']] sealed_world = (sealed_world, Some EACCES)"
proof -
  have o1: "\<not> force (parseArgs [''src''])"
    by code_simp
  have o2: "force (parseArgs [''src'', ''--force''])" "\<not> dryRun (parseArgs [''src'', ''--force''])"
    by code_simp+
  have o3: "dryRun (parseArgs [''src'', ''--force'', ''--dry-run''])"
    by code_simp
  have tp: "getTestPath [''proj'', ''src'', ''Card.tsx''] = [''proj'', ''src'', ''Card.test.tsx'']"
    by code_simp
  have acc: "fs_access sample_world (getTestPath [''proj'', ''src'', ''Card.tsx''])"
    by code_simp
  have old: "contents (fs sample_world) [''proj'', ''src'', ''Card.test.tsx''] =
      Some ''// written by hand''"
    by code_simp
  have completed: "snd (main [''src'', ''--force''] [''proj''] sample_world) = Completed"
    by code_simp
  have mem: "[''proj'', ''src'', ''Card.tsx''] \<in>
        set (findComponentFiles (fs sample_world)
          (path_resolve [''proj''] (rootDir (parseArgs [''src'', ''--force'']))))"
    by code_simp
  have rd: "fs_readFile sample_world [''proj'', ''src'', ''Card.tsx''] =
      Inr ''export const Card = () => null;''"
    by code_simp
  have ne: "[''proj'', ''src'', ''locked'', ''Card.tsx''] \<noteq> []"
    by simp
  have unreachable:
    "\<not> reachable sealed_world (getTestPath [''proj'', ''src'', ''locked'', ''Card.tsx''])"
    by code_simp
  note p1 = write_policy [of "[''src'']" "[''proj'']" sample_world]
  note p2 = write_policy [of "[''src'', ''--force'']" "[''proj'']" sample_world]
  note p3 = write_policy [of "[''src'', ''--force'', ''--dry-run'']" "[''proj'']" sample_world]
  from p1 o1 acc have "generate (parseArgs [''src'']) [''proj''] [[''proj'', ''src'', ''Card.tsx'']]
      sample_world = generate (parseArgs [''src'']) [''proj''] [] sample_world"
    by blast
  then have skipped: "generate (parseArgs [''src'']) [''proj'']
      [[''proj'', ''src'', ''Card.tsx'']] sample_world = (sample_world, None)"
    by (simp only: generate.simps(1))
  from p1 o1 old have kept: "contents (fs (fst (main [''src''] [''proj''] sample_world)))
        [''proj'', ''src'', ''Card.test.tsx''] = Some ''// written by hand''"
    by blast
  from p2 o2 completed mem obtain source where
    "fs_readFile sample_world [''proj'', ''src'', ''Card.tsx''] = Inr source"
    "contents (fs (fst (main [''src'', ''--force''] [''proj''] sample_world)))
       (getTestPath [''proj'', ''src'', ''Card.tsx'']) =
      Some (createTestTemplate [''proj'', ''src'', ''Card.tsx'']
        (inferExportInfo [''proj'', ''src'', ''Card.tsx''] source))"
    by blast
  with rd tp have overwritten:
    "contents (fs (fst (main [''src'', ''--force''] [''proj''] sample_world)))
        [''proj'', ''src'', ''Card.test.tsx''] =
       Some (createTestTemplate [''proj'', ''src'', ''Card.tsx'']
         (inferExportInfo [''proj'', ''src'', ''Card.tsx''] ''export const Card = () => null;''))"
    by simp
  from p3 o3 have dry:
    "fs (fst (main [''src'', ''--force'', ''--dry-run''] [''proj''] sample_world)) = fs sample_world"
    by blast
  from p2 ne unreachable have stopped: "generate (parseArgs [''src'', ''--force'']) [''proj'']
        [[''proj'', ''src'', ''locked'', ''Card.tsx'']] sealed_world = (sealed_world, Some EACCES)"
    by blast
  from o1 acc skipped old kept o2 completed mem overwritten o3 dry ne unreachable stopped
  show ?thesis
    by (intro conjI)
qed

text \<open>
  Claim C5 (a second run on the same root without \<^verbatim>\<open>--force\<close> changes no file: the test
  files of the first run exist, they are not taken for component files, and every component
  file is skipped). The two runs have the same arguments and working directory, on a file
  system without symbolic links (a test path that is a link to nothing is outside the
  tree). The walk finds the same files after the first run as before it, and when the
  first run was not a dry run and completed, \<^verbatim>\<open>fs.access\<close> finds the test file of each of
  them, which is the condition to be skipped.
\<close>

theorem second_run_changes_nothing:
  assumes "\<not> force (parseArgs argv)"
  shows "fs (fst (main argv cwd (fst (main argv cwd w)))) = fs (fst (main argv cwd w))
       \<and> findComponentFiles (fs (fst (main argv cwd w)))
            (path_resolve cwd (rootDir (parseArgs argv))) =
          findComponentFiles (fs w) (path_resolve cwd (rootDir (parseArgs argv)))
       \<and> (\<not> dryRun (parseArgs argv) \<and> snd (main argv cwd w) = Completed \<longrightarrow>
            (\<forall>f \<in> set (findComponentFiles (fs (fst (main argv cwd w)))
                        (path_resolve cwd (rootDir (parseArgs argv)))).
               fs_access (fst (main argv cwd w)) (getTestPath f)))"
proof -
  let ?opts = "parseArgs argv"
  let ?root = "path_resolve cwd (rootDir ?opts)"
  let ?files = "findComponentFiles (fs w) ?root"
  let ?w' = "fst (main argv cwd w)"
  from main_generate [of w argv cwd] obtain w1 where
    w1: "fs w1 = fs w" "unsearchable w1 = unsearchable w"
      "fs ?w' = fs (fst (generate ?opts cwd ?files w1))"
      "unsearchable ?w' = unsearchable w"
      "snd (main argv cwd w) = Completed \<longrightarrow> snd (generate ?opts cwd ?files w1) = None"
    by blast
  have same: "findComponentFiles (fs ?w') ?root = ?files"
    using generate_findComponentFiles [of ?opts cwd ?files w1 ?root] w1(1,3) by simp
  from main_generate [of ?w' argv cwd] obtain w2 where
    w2: "fs w2 = fs ?w'" "unsearchable w2 = unsearchable ?w'"
      "fs (fst (main argv cwd ?w')) =
         fs (fst (generate ?opts cwd (findComponentFiles (fs ?w') ?root) w2))"
    by blast
  from w2(1) w1(3) have "fs w2 = fs (fst (generate ?opts cwd ?files w1))" by simp
  moreover from w2(2) w1(2,4) have "unsearchable w2 = unsearchable w1" by simp
  ultimately have "fs (fst (generate ?opts cwd ?files w2)) = fs w2"
    by (rule generate_idempotent [OF assms])
  with w2 same have idem: "fs (fst (main argv cwd ?w')) = fs ?w'" by simp
  have tested: "fs_access ?w' (getTestPath f)"
    if "\<not> dryRun ?opts" "snd (main argv cwd w) = Completed"
      "f \<in> set (findComponentFiles (fs ?w') ?root)" for f
  proof -
    from that(3) same have "f \<in> set ?files" by simp
    with generate_all_tested [OF that(1), of cwd ?files w1 f] that(2) w1(5)
    have "fs_access (fst (generate ?opts cwd ?files w1)) (getTestPath f)" by simp
    moreover from w1(2,4) have
      "unsearchable ?w' = unsearchable (fst (generate ?opts cwd ?files w1))"
      by (simp add: generate_unsearchable)
    ultimately show ?thesis
      by (simp only: fs_access_cong [OF w1(3)])
  qed
  from idem same tested show ?thesis by blast
qed

theorem second_run_changes_nothing_witness:
  "\<not> force (parseArgs [''src''])
   \<and> \<not> fs_access sample_world [''proj'', ''src'', ''Button.test.tsx'']
   \<and> fs (fst (main [''src''] [''proj''] (fst (main [''src''] [''proj''] sample_world)))) =
       fs (fst (main [''src''] [''proj''] sample_world))
   \<and> \<not> dryRun (parseArgs [''src''])
   \<and> snd (main [''src''] [''proj''] sample_world) = Completed
   \<and> [''proj'', ''src'', ''Button.tsx''] \<in>
        set (findComponentFiles (fs (fst (main [''src''] [''proj''] sample_world)))
          (path_resolve [''proj''] (rootDir (parseArgs [''src'']))))
   \<and> fs_access (fst (main [''src''] [''proj''] sample_world))
        (getTestPath [''proj'', ''src'', ''Button.tsx''])"
proof -
  have o: "\<not> force (parseArgs [''src''])" "\<not> dryRun (parseArgs [''src''])"
    by code_simp+
  have before: "\<not> fs_access sample_world [''proj'', ''src'', ''Button.test.tsx'']"
    by code_simp
  have completed: "snd (main [''src''] [''proj''] sample_world) = Completed"
    by code_simp
  have mem: "[''proj'', ''src'', ''Button.tsx''] \<in>
        set (findComponentFiles (fs sample_world)
          (path_resolve [''proj''] (rootDir (parseArgs [''src'']))))"
    by code_simp
  note run = second_run_changes_nothing [OF o(1), of "[''proj'']" sample_world]
  from run mem have mem': "[''proj'', ''src'', ''Button.tsx''] \<in>
        set (findComponentFiles (fs (fst (main [''src''] [''proj''] sample_world)))
          (path_resolve [''proj''] (rootDir (parseArgs [''src'']))))"
    by simp
  from run o(2) completed mem' have
    "fs_access (fst (main [''src''] [''proj''] sample_world))
        (getTestPath [''proj'', ''src'', ''Button.tsx''])"
    by blast
  with run o before completed mem' show ?thesis
    by (intro conjI) blast+
qed

end
